theory Spec2Isabelle
  imports Complex_Main "HOL-Library.AList" "HOL-Library.Sublist"
begin

section \<open>Python values shared by the whole development\<close>

text \<open>
  Exceptions are values: every \<^verbatim>\<open>raise\<close> of the source is an \<open>Inl\<close> of the result type
  \<open>exn + 'a\<close>. Only subclasses of \<^verbatim>\<open>Exception\<close> are modelled, which is what the
  \<^verbatim>\<open>except Exception\<close> clauses of the source catch. Floats are idealised as reals.
\<close>

datatype CircuitState = CLOSED | OPEN | HALF_OPEN

datatype detail = State CircuitState | Failures int | Service string

datatype exn =
    Exception string
  | RuntimeError string
  | TypeError string
  | ValueError string
  | KeyError string
  | NotFoundError string
  | ValidationError string
  | ConflictError string
  | IntegrityError string
  | DataError string
  | ExternalServiceError string "detail list"

text \<open>
  An awaited coroutine: it runs in a world \<open>'w\<close> (everything outside the program: the
  remote service, the clock, the event loop), and either raises or returns.
\<close>

type_synonym ('w, 'a) awaitable = "'w \<Rightarrow> (exn + 'a) \<times> 'w"

text \<open>A Python callable applied to positional and keyword arguments.\<close>

type_synonym ('p, 'w, 'a) pyfun = "'p list \<Rightarrow> (string \<times> 'p) list \<Rightarrow> ('w, 'a) awaitable"

section \<open>app/integrations/circuit\_breaker.py\<close>

record CircuitBreaker =
  failure_threshold :: int
  timeout :: real
  name :: string
  failure_count :: int
  last_failure_time :: "real option"
  state :: CircuitState

definition CircuitBreaker_init :: "int \<Rightarrow> real \<Rightarrow> string \<Rightarrow> CircuitBreaker" where
  "CircuitBreaker_init threshold tmo nm =
     \<lparr>failure_threshold = threshold, timeout = tmo, name = nm,
      failure_count = 0, last_failure_time = None, state = CLOSED\<rparr>"

text \<open>\<^verbatim>\<open>_should_attempt_reset\<close>; \<open>now\<close> is the value \<^verbatim>\<open>time.time()\<close> returns.\<close>

definition should_attempt_reset :: "real \<Rightarrow> CircuitBreaker \<Rightarrow> bool" where
  "should_attempt_reset now cb =
     (case last_failure_time cb of
        None \<Rightarrow> False
      | Some t \<Rightarrow> now - t \<ge> timeout cb)"

definition circuit_open_error :: "CircuitBreaker \<Rightarrow> exn" where
  "circuit_open_error cb =
     ExternalServiceError
       (''Circuit breaker '' @ [CHR 0x27] @ name cb @ [CHR 0x27] @ '' is OPEN'')
       [State (state cb), Failures (failure_count cb)]"

text \<open>
  \<^verbatim>\<open>CircuitBreaker.call\<close>. The breaker object is mutated in place by the source; here it
  is passed in and returned. \<open>time\<close> reads \<^verbatim>\<open>time.time()\<close> off the world.
\<close>

definition call ::
  "('w \<Rightarrow> real) \<Rightarrow> ('w, 'a) awaitable \<Rightarrow> CircuitBreaker \<times> 'w \<Rightarrow> (exn + 'a) \<times> CircuitBreaker \<times> 'w" where
  "call time func = (\<lambda>(cb, w).
     if state cb = OPEN \<and> \<not> should_attempt_reset (time w) cb then
       (Inl (circuit_open_error cb), cb, w)
     else
       let cb1 = (if state cb = OPEN then cb\<lparr>state := HALF_OPEN\<rparr> else cb) in
       case func w of
         (Inr result, w') \<Rightarrow>
           (Inr result,
            (if state cb1 = HALF_OPEN
             then cb1\<lparr>state := CLOSED, failure_count := 0, last_failure_time := None\<rparr>
             else cb1),
            w')
       | (Inl e, w') \<Rightarrow>
           let cb2 = cb1\<lparr>failure_count := failure_count cb1 + 1,
                         last_failure_time := Some (time w')\<rparr>;
               cb3 = (if failure_count cb2 \<ge> failure_threshold cb2
                      then cb2\<lparr>state := OPEN\<rparr> else cb2)
           in (Inl e, cb3, w'))"

text \<open>
  \<^verbatim>\<open>with_circuit_breaker\<close>: the decorator builds one breaker when the function is
  defined; every call of the wrapper goes through that breaker.
\<close>

definition with_circuit_breaker ::
  "('w \<Rightarrow> real) \<Rightarrow> ('p, 'w, 'a) pyfun \<Rightarrow> 'p list \<Rightarrow> (string \<times> 'p) list \<Rightarrow>
   CircuitBreaker \<times> 'w \<Rightarrow> (exn + 'a) \<times> CircuitBreaker \<times> 'w" where
  "with_circuit_breaker time func args kwargs = call time (func args kwargs)"

section \<open>app/integrations/retry.py\<close>

text \<open>
  The \<^verbatim>\<open>for attempt in range(1, max_attempts + 1)\<close> loop of \<^verbatim>\<open>retry_with_backoff\<close>,
  entered at \<open>attempt\<close> with the current \<open>delay\<close> and \<open>last_exception\<close>; \<open>sleep\<close> is
  \<^verbatim>\<open>asyncio.sleep\<close>. The code after the loop is the first branch.
\<close>

function retry_loop ::
  "(real \<Rightarrow> 'w \<Rightarrow> 'w) \<Rightarrow> ('w, 'a) awaitable \<Rightarrow> int \<Rightarrow> real \<Rightarrow> int \<Rightarrow> real \<Rightarrow> exn option \<Rightarrow>
   ('w, 'a) awaitable" where
  "retry_loop sleep func max_attempts backoff_factor attempt delay last_exception w =
     (if attempt > max_attempts then
        (case last_exception of
           Some e \<Rightarrow> (Inl e, w)
         | None \<Rightarrow> (Inl (RuntimeError ''Retry failed without exception''), w))
      else
        (case func w of
           (Inr result, w') \<Rightarrow> (Inr result, w')
         | (Inl e, w') \<Rightarrow>
             if attempt < max_attempts
             then retry_loop sleep func max_attempts backoff_factor (attempt + 1)
                    (delay * backoff_factor) (Some e) (sleep delay w')
             else retry_loop sleep func max_attempts backoff_factor (attempt + 1)
                    delay (Some e) w'))"
  by pat_completeness auto
termination
  by (relation "measure (\<lambda>(sleep, func, max_attempts, backoff_factor, attempt, delay, last_exception, w).
                  nat (max_attempts + 1 - attempt))") auto

declare retry_loop.simps [simp del]

definition retry_with_backoff ::
  "(real \<Rightarrow> 'w \<Rightarrow> 'w) \<Rightarrow> ('w, 'a) awaitable \<Rightarrow> int \<Rightarrow> real \<Rightarrow> real \<Rightarrow> ('w, 'a) awaitable" where
  "retry_with_backoff sleep func max_retries initial_delay backoff_factor =
     retry_loop sleep func (max_retries + 1) backoff_factor 1 initial_delay None"

text \<open>
  \<^verbatim>\<open>with_retry\<close>. The wrapper calls
  \<^verbatim>\<open>retry_with_backoff(func, max_retries=..., initial_delay=..., backoff_factor=..., *args, **kwargs)\<close>.
  Python binds the unpacked positional arguments right after \<^verbatim>\<open>func\<close>, that is to
  \<^verbatim>\<open>max_retries\<close>, which is also given by keyword: with any positional argument the
  call raises \<^verbatim>\<open>TypeError\<close> before \<^verbatim>\<open>func\<close> is awaited. The same happens when a keyword
  argument has the name of one of the four parameters.
\<close>

definition with_retry ::
  "(real \<Rightarrow> 'w \<Rightarrow> 'w) \<Rightarrow> int \<Rightarrow> real \<Rightarrow> real \<Rightarrow> ('p, 'w, 'a) pyfun \<Rightarrow> ('p, 'w, 'a) pyfun" where
  "with_retry sleep max_retries initial_delay backoff_factor func args kwargs w =
     (if args \<noteq> [] then
        (Inl (TypeError ''retry_with_backoff() got multiple values for argument max_retries''), w)
      else if list_ex (\<lambda>(k, v). k \<in> set [''func'', ''max_retries'', ''initial_delay'', ''backoff_factor'']) kwargs then
        (Inl (TypeError ''retry_with_backoff() got multiple values for keyword argument''), w)
      else
        retry_with_backoff sleep (func args kwargs) max_retries initial_delay backoff_factor w)"


section \<open>A scripted remote function\<close>

text \<open>
  To count invocations and sleeps, the wrapped function is a script, as the test double
  \<^verbatim>\<open>CallSequenceMock\<close> of the repository is: its \<open>i\<close>-th invocation (from 0) raises or
  returns \<open>f i\<close>. The world records every invocation and every sleep, in order.
\<close>

datatype event = Invoked | Slept real

record world =
  invocations :: nat
  events :: "event list"
  clock :: real

definition invoke :: "(nat \<Rightarrow> exn + 'a) \<Rightarrow> (world, 'a) awaitable" where
  "invoke f w =
     (f (invocations w), w\<lparr>invocations := invocations w + 1, events := events w @ [Invoked]\<rparr>)"

definition asleep :: "real \<Rightarrow> world \<Rightarrow> world" where
  "asleep d w = w\<lparr>events := events w @ [Slept d], clock := clock w + max 0 d\<rparr>"

definition world0 :: "real \<Rightarrow> world" where
  "world0 t = \<lparr>invocations = 0, events = [], clock = t\<rparr>"

text \<open>\<open>n\<close> calls in a row through one breaker, results dropped.\<close>

fun calls ::
  "('w \<Rightarrow> real) \<Rightarrow> ('w, 'a) awaitable \<Rightarrow> nat \<Rightarrow> CircuitBreaker \<times> 'w \<Rightarrow> CircuitBreaker \<times> 'w" where
  "calls time func 0 s = s"
| "calls time func (Suc n) s = snd (call time func (calls time func n s))"

text \<open>How many of the first \<open>n\<close> invocations of the script fail.\<close>

definition failures :: "(nat \<Rightarrow> exn + 'a) \<Rightarrow> nat \<Rightarrow> nat" where
  "failures f n = length (filter (\<lambda>i. isl (f i)) [0..<n])"

text \<open>The geometric sequence of the first \<open>k\<close> retry delays.\<close>

definition backoff_delays :: "real \<Rightarrow> real \<Rightarrow> nat \<Rightarrow> real list" where
  "backoff_delays initial_delay backoff_factor k =
     map (\<lambda>i. initial_delay * backoff_factor ^ i) [0..<k]"

text \<open>What the world records of \<open>k\<close> failed attempts followed by one more attempt.\<close>

definition retry_events :: "real \<Rightarrow> real \<Rightarrow> nat \<Rightarrow> event list" where
  "retry_events initial_delay backoff_factor k =
     concat (map (\<lambda>d. [Invoked, Slept d]) (backoff_delays initial_delay backoff_factor k)) @ [Invoked]"


text \<open>The delays of the sleeps a world has recorded, in order.\<close>

fun slept :: "event list \<Rightarrow> real list" where
  "slept [] = []"
| "slept (Invoked # es) = slept es"
| "slept (Slept d # es) = d # slept es"

text \<open>
  What holds of a breaker between two calls, from \<^verbatim>\<open>__init__\<close> on: it is never left
  half-open, and an open breaker has reached its threshold and has a failure time.
\<close>

definition cb_inv :: "CircuitBreaker \<Rightarrow> bool" where
  "cb_inv cb \<longleftrightarrow>
     state cb \<noteq> HALF_OPEN \<and>
     (state cb = OPEN \<longrightarrow> failure_threshold cb \<le> failure_count cb \<and> last_failure_time cb \<noteq> None)"

text \<open>
  The scripted function as a Python callable that ignores its arguments, and two scripts:
  one that always raises, one that raises twice and then returns.
\<close>

definition scripted :: "(nat \<Rightarrow> exn + 'a) \<Rightarrow> ('p, world, 'a) pyfun" where
  "scripted f args kwargs = invoke f"

definition always_failing :: "nat \<Rightarrow> exn + nat" where
  "always_failing i = Inl (Exception ''Service unavailable'')"

definition failing_twice :: "nat \<Rightarrow> exn + nat" where
  "failing_twice i = (if i < 2 then Inl (ValueError ''Transient error'') else Inr 7)"

section \<open>app/integrations/ai\_career\_client.py\<close>

text \<open>
  \<^verbatim>\<open>AICareerClient._call_production_api\<close> is the HTTP request \<open>raw\<close> under two
  decorators: \<^verbatim>\<open>@with_retry\<close> is applied first, \<^verbatim>\<open>@with_circuit_breaker\<close> around it, with
  \<^verbatim>\<open>backoff_factor=2.0\<close>. The threshold and the timeout of the breaker are those of the
  breaker passed in.
\<close>

definition call_production_api ::
  "('w \<Rightarrow> real) \<Rightarrow> (real \<Rightarrow> 'w \<Rightarrow> 'w) \<Rightarrow> int \<Rightarrow> real \<Rightarrow> ('p, 'w, 'a) pyfun \<Rightarrow>
   'p list \<Rightarrow> (string \<times> 'p) list \<Rightarrow> CircuitBreaker \<times> 'w \<Rightarrow> (exn + 'a) \<times> CircuitBreaker \<times> 'w" where
  "call_production_api time sleep ai_service_max_retries ai_service_retry_delay raw =
     with_circuit_breaker time
       (with_retry sleep ai_service_max_retries ai_service_retry_delay 2 raw)"

section \<open>app/domain/entities/evaluation.py\<close>

text \<open>UUIDs are natural numbers; timestamps are reals.\<close>

type_synonym uuid = nat

record CompetencyScore =
  skill_id :: uuid
  score :: real
  comments :: "string option"

text \<open>The constructor of the frozen dataclass, with its \<^verbatim>\<open>__post_init__\<close> check.\<close>

definition CompetencyScore_init :: "uuid \<Rightarrow> real \<Rightarrow> string option \<Rightarrow> exn + CompetencyScore" where
  "CompetencyScore_init sid s c =
     (if \<not> (0 \<le> s \<and> s \<le> 10) then Inl (ValueError ''Score must be between 0 and 10'')
      else Inr \<lparr>skill_id = sid, score = s, comments = c\<rparr>)"

record EvaluationEntity =
  ev_id :: uuid
  ev_user_id :: uuid
  evaluation_cycle_id :: uuid
  evaluator_id :: uuid
  evaluator_relationship :: string
  ev_status :: string
  competency_scores :: "CompetencyScore list"
  submitted_at :: "real option"

definition is_submitted :: "EvaluationEntity \<Rightarrow> bool" where
  "is_submitted e \<longleftrightarrow> ev_status e = ''submitted''"

section \<open>app/domain/evaluation\_logic.py\<close>

text \<open>\<^verbatim>\<open>str\<close> of a Python int, for the f-strings.\<close>

function str_nat :: "nat \<Rightarrow> string" where
  "str_nat n =
     (if n < 10 then [''0123456789'' ! n]
      else str_nat (n div 10) @ [''0123456789'' ! (n mod 10)])"
  by pat_completeness auto
termination
  by (relation "measure id") auto

declare str_nat.simps [simp del]

definition str_int :: "int \<Rightarrow> string" where
  "str_int i = (if i < 0 then ''-'' @ str_nat (nat (- i)) else str_nat (nat i))"

text \<open>\<^verbatim>\<open>sep.join(parts)\<close>.\<close>

fun join :: "string \<Rightarrow> string list \<Rightarrow> string" where
  "join sep [] = []"
| "join sep [x] = x"
| "join sep (x # y # ys) = x @ sep @ join sep (y # ys)"

text \<open>
  The dictionary \<^verbatim>\<open>counts\<close> is an association list with the four keys of the source; a
  lookup of one of these keys cannot fail.
\<close>

definition initial_counts :: "(string \<times> int) list" where
  "initial_counts = [(''self'', 0), (''manager'', 0), (''peer'', 0), (''direct_report'', 0)]"

definition get_count :: "(string \<times> int) list \<Rightarrow> string \<Rightarrow> int" where
  "get_count counts k = (case map_of counts k of Some n \<Rightarrow> n | None \<Rightarrow> 0)"

fun count_evaluations :: "EvaluationEntity list \<Rightarrow> (string \<times> int) list \<Rightarrow> (string \<times> int) list" where
  "count_evaluations [] counts = counts"
| "count_evaluations (evaluation # rest) counts =
     count_evaluations rest
       (if is_submitted evaluation then
          (case map_of counts (evaluator_relationship evaluation) of
             Some n \<Rightarrow> AList.update (evaluator_relationship evaluation) (n + 1) counts
           | None \<Rightarrow> counts)
        else counts)"

definition is_cycle_complete_for_user ::
  "EvaluationEntity list \<Rightarrow> int \<Rightarrow> int \<Rightarrow> bool \<times> string option" where
  "is_cycle_complete_for_user evaluations min_peers min_direct_reports =
     (let counts = count_evaluations evaluations initial_counts;
          missing_parts =
            (if get_count counts ''self'' < 1 then [''self-evaluation''] else []) @
            (if get_count counts ''manager'' < 1 then [''manager evaluation''] else []) @
            (if get_count counts ''peer'' < min_peers
             then [''at least '' @ str_int min_peers @ '' peer evaluations (has '' @
                   str_int (get_count counts ''peer'') @ '')'']
             else []) @
            (if get_count counts ''direct_report'' < min_direct_reports
             then [''at least '' @ str_int min_direct_reports @
                   '' direct report evaluations (has '' @
                   str_int (get_count counts ''direct_report'') @ '')'']
             else [])
      in if missing_parts \<noteq> [] then (False, Some (''Missing: '' @ join '', '' missing_parts))
         else (True, None))"

text \<open>How many submitted evaluations of a relationship kind a list holds.\<close>

definition submitted_count :: "EvaluationEntity list \<Rightarrow> string \<Rightarrow> int" where
  "submitted_count evaluations rel =
     int (length (filter (\<lambda>e. ev_status e = ''submitted'' \<and> evaluator_relationship e = rel)
                    evaluations))"

text \<open>
  \<^verbatim>\<open>aggregate_competency_scores\<close>. The inner dictionary of a skill has the four fixed keys
  and is a record; \<^verbatim>\<open>scores_by_skill[skill_id][rel].append(score)\<close> raises \<^verbatim>\<open>KeyError\<close> for
  any other relationship. \<^verbatim>\<open>scores_by_skill\<close> keeps insertion order, as a Python dict does.
\<close>

record rel_scores =
  by_self :: "real list"
  by_peer :: "real list"
  by_manager :: "real list"
  by_direct_report :: "real list"

definition empty_rel_scores :: rel_scores where
  "empty_rel_scores = \<lparr>by_self = [], by_peer = [], by_manager = [], by_direct_report = []\<rparr>"

definition append_score :: "string \<Rightarrow> real \<Rightarrow> rel_scores \<Rightarrow> exn + rel_scores" where
  "append_score rel x d =
     (if rel = ''self'' then Inr (d\<lparr>by_self := by_self d @ [x]\<rparr>)
      else if rel = ''peer'' then Inr (d\<lparr>by_peer := by_peer d @ [x]\<rparr>)
      else if rel = ''manager'' then Inr (d\<lparr>by_manager := by_manager d @ [x]\<rparr>)
      else if rel = ''direct_report'' then Inr (d\<lparr>by_direct_report := by_direct_report d @ [x]\<rparr>)
      else Inl (KeyError rel))"

text \<open>The body of the loop over \<^verbatim>\<open>evaluation.competency_scores\<close>.\<close>

definition add_score ::
  "string \<Rightarrow> CompetencyScore \<Rightarrow> (uuid \<times> rel_scores) list \<Rightarrow> exn + (uuid \<times> rel_scores) list" where
  "add_score rel comp_score scores_by_skill =
     (let d = (case map_of scores_by_skill (skill_id comp_score) of
                 None \<Rightarrow> empty_rel_scores
               | Some d \<Rightarrow> d)
      in case append_score rel (score comp_score) d of
           Inl e \<Rightarrow> Inl e
         | Inr d' \<Rightarrow> Inr (AList.update (skill_id comp_score) d' scores_by_skill))"

fun add_scores ::
  "string \<Rightarrow> CompetencyScore list \<Rightarrow> (uuid \<times> rel_scores) list \<Rightarrow> exn + (uuid \<times> rel_scores) list" where
  "add_scores rel [] scores_by_skill = Inr scores_by_skill"
| "add_scores rel (comp_score # rest) scores_by_skill =
     (case add_score rel comp_score scores_by_skill of
        Inl e \<Rightarrow> Inl e
      | Inr m \<Rightarrow> add_scores rel rest m)"

fun collect_scores ::
  "EvaluationEntity list \<Rightarrow> (uuid \<times> rel_scores) list \<Rightarrow> exn + (uuid \<times> rel_scores) list" where
  "collect_scores [] scores_by_skill = Inr scores_by_skill"
| "collect_scores (evaluation # rest) scores_by_skill =
     (if \<not> is_submitted evaluation then collect_scores rest scores_by_skill
      else case add_scores (evaluator_relationship evaluation) (competency_scores evaluation)
                  scores_by_skill of
             Inl e \<Rightarrow> Inl e
           | Inr m \<Rightarrow> collect_scores rest m)"

record raw_stats =
  raw_self_scores :: "real list"
  raw_peer_scores :: "real list"
  raw_manager_scores :: "real list"
  raw_direct_report_scores :: "real list"
  raw_self_avg :: "real option"
  raw_peer_avg :: "real option"
  raw_manager_avg :: "real option"
  raw_direct_report_avg :: "real option"
  raw_n_self :: nat
  raw_n_peer :: nat
  raw_n_manager :: nat
  raw_n_direct_report :: nat

record skill_stats =
  overall_avg :: real
  self_avg :: "real option"
  peer_avg :: "real option"
  manager_avg :: "real option"
  direct_report_avg :: "real option"
  n_self :: nat
  n_peer :: nat
  n_manager :: nat
  n_direct_report :: nat
  confidence :: real
  raw_stats :: raw_stats

text \<open>The body of the loop over \<^verbatim>\<open>scores_by_skill.items()\<close>.\<close>

definition aggregate_skill :: "rel_scores \<Rightarrow> skill_stats" where
  "aggregate_skill scores_by_rel =
     (let self_scores = by_self scores_by_rel;
          peer_scores = by_peer scores_by_rel;
          manager_scores = by_manager scores_by_rel;
          direct_report_scores = by_direct_report scores_by_rel;
          self_avg = (if self_scores \<noteq> []
                      then Some (sum_list self_scores / real (length self_scores)) else None);
          peer_avg = (if peer_scores \<noteq> []
                      then Some (sum_list peer_scores / real (length peer_scores)) else None);
          manager_avg = (if manager_scores \<noteq> []
                         then Some (sum_list manager_scores / real (length manager_scores))
                         else None);
          direct_report_avg =
            (if direct_report_scores \<noteq> []
             then Some (sum_list direct_report_scores / real (length direct_report_scores))
             else None);
          all_scores = self_scores @ peer_scores @ manager_scores @ direct_report_scores;
          overall_avg = (if all_scores \<noteq> []
                         then sum_list all_scores / real (length all_scores) else 0.0);
          total_n = length all_scores;
          confidence = (if total_n \<ge> 5 then 0.9
                        else if total_n \<ge> 3 then 0.7
                        else if total_n \<ge> 1 then 0.5
                        else 0.0)
      in \<lparr>overall_avg = overall_avg,
          self_avg = self_avg,
          peer_avg = peer_avg,
          manager_avg = manager_avg,
          direct_report_avg = direct_report_avg,
          n_self = length self_scores,
          n_peer = length peer_scores,
          n_manager = length manager_scores,
          n_direct_report = length direct_report_scores,
          confidence = confidence,
          raw_stats =
            \<lparr>raw_self_scores = self_scores,
             raw_peer_scores = peer_scores,
             raw_manager_scores = manager_scores,
             raw_direct_report_scores = direct_report_scores,
             raw_self_avg = self_avg,
             raw_peer_avg = peer_avg,
             raw_manager_avg = manager_avg,
             raw_direct_report_avg = direct_report_avg,
             raw_n_self = length self_scores,
             raw_n_peer = length peer_scores,
             raw_n_manager = length manager_scores,
             raw_n_direct_report = length direct_report_scores\<rparr>\<rparr>)"

definition aggregate_competency_scores ::
  "EvaluationEntity list \<Rightarrow> exn + (uuid \<times> skill_stats) list" where
  "aggregate_competency_scores evaluations =
     (case collect_scores evaluations [] of
        Inl e \<Rightarrow> Inl e
      | Inr scores_by_skill \<Rightarrow> Inr (map (\<lambda>(sid, d). (sid, aggregate_skill d)) scores_by_skill))"

text \<open>
  The scores a list of evaluations holds for a skill from submitted evaluations of a
  relationship kind, in order.
\<close>

definition scores_of :: "EvaluationEntity list \<Rightarrow> string \<Rightarrow> uuid \<Rightarrow> real list" where
  "scores_of evaluations rel sid =
     concat (map (\<lambda>e. if ev_status e = ''submitted'' \<and> evaluator_relationship e = rel
                       then map score (filter (\<lambda>c. skill_id c = sid) (competency_scores e))
                       else [])
               evaluations)"

definition all_scores_of :: "EvaluationEntity list \<Rightarrow> uuid \<Rightarrow> real list" where
  "all_scores_of evaluations sid =
     scores_of evaluations ''self'' sid @ scores_of evaluations ''peer'' sid @
     scores_of evaluations ''manager'' sid @ scores_of evaluations ''direct_report'' sid"

definition relationship_kinds :: "string set" where
  "relationship_kinds = {''self'', ''manager'', ''peer'', ''direct_report''}"

text \<open>
  Reading the collected dictionary: the list under a relationship key, the list a skill has
  under a relationship key (empty for a skill that is not a key), and all scores of an entry.
\<close>

definition rel_list :: "string \<Rightarrow> rel_scores \<Rightarrow> real list" where
  "rel_list rel d =
     (if rel = ''self'' then by_self d
      else if rel = ''peer'' then by_peer d
      else if rel = ''manager'' then by_manager d
      else if rel = ''direct_report'' then by_direct_report d
      else [])"

definition entry_scores :: "(uuid \<times> rel_scores) list \<Rightarrow> uuid \<Rightarrow> string \<Rightarrow> real list" where
  "entry_scores m sid rel = (case map_of m sid of None \<Rightarrow> [] | Some d \<Rightarrow> rel_list rel d)"

definition entry_total :: "rel_scores \<Rightarrow> real list" where
  "entry_total d = by_self d @ by_peer d @ by_manager d @ by_direct_report d"

text \<open>
  The invariant of the collecting loops: keys are distinct and no key has an empty entry.
\<close>

definition entries_ok :: "(uuid \<times> rel_scores) list \<Rightarrow> bool" where
  "entries_ok m \<longleftrightarrow> distinct (map fst m) \<and> (\<forall>k d. map_of m k = Some d \<longrightarrow> entry_total d \<noteq> [])"

text \<open>An evaluation of the tests: one score for one skill.\<close>

definition make_eval_with_score :: "string \<Rightarrow> string \<Rightarrow> uuid \<Rightarrow> real \<Rightarrow> EvaluationEntity" where
  "make_eval_with_score relationship status sid s =
     \<lparr>ev_id = 0, ev_user_id = 1, evaluation_cycle_id = 2, evaluator_id = 3,
      evaluator_relationship = relationship, ev_status = status,
      competency_scores = [\<lparr>skill_id = sid, score = s, comments = None\<rparr>],
      submitted_at = None\<rparr>"

definition scenario_evaluations :: "EvaluationEntity list" where
  "scenario_evaluations =
     [make_eval_with_score ''self'' ''submitted'' 42 9.0,
      make_eval_with_score ''manager'' ''submitted'' 42 8.0,
      make_eval_with_score ''peer'' ''submitted'' 42 7.0,
      make_eval_with_score ''peer'' ''submitted'' 42 7.0]"

section \<open>The relational store and the unit of work\<close>

text \<open>
  A table is the list of its rows, a row a record of the columns the modelled code reads or
  writes. Adding rows to a list enforces nothing; what the database engine does with rows
  built from a response of an AI service is modelled where the services insert them: the
  type and the range check of the column \<^verbatim>\<open>readiness_percentage\<close> in \<open>insert_items\<close>, the
  other constraints as the answer \<open>flush\<close> of the database, of which \<open>integrity_check\<close> is
  the one the tables of career paths give. \<^verbatim>\<open>uuid4()\<close> draws the next unused number.
  Primary keys are distinct in every state the operations build from a state where they
  are.
\<close>

record User =
  u_id :: uuid
  u_role_id :: "uuid option"

record Role =
  r_id :: uuid
  r_name :: string
  r_job_family :: "string option"
  r_seniority_level :: "string option"
  r_is_active :: bool

record Skill =
  s_id :: uuid
  s_name :: string

record EvaluationCompetencyScore =
  ecs_id :: uuid
  ecs_skill_id :: uuid
  ecs_score :: real
  ecs_comments :: "string option"

record Evaluation =
  e_id :: uuid
  e_user_id :: uuid
  e_evaluation_cycle_id :: uuid
  e_evaluator_id :: uuid
  e_evaluator_relationship :: string
  e_status :: string
  e_competency_scores :: "EvaluationCompetencyScore list"
  e_submitted_at :: "real option"

record UserSkillScore =
  uss_id :: uuid
  uss_user_id :: uuid
  uss_evaluation_cycle_id :: uuid
  uss_skill_id :: uuid
  uss_source :: string
  uss_score :: real
  uss_confidence :: "real option"
  uss_raw_stats :: "raw_stats option"

record SkillsAssessment =
  sa_id :: uuid
  sa_user_id :: uuid
  sa_evaluation_cycle_id :: "uuid option"
  sa_status :: string
  sa_processed_at :: "real option"

text \<open>
  Of \<^verbatim>\<open>SkillsAssessmentItem\<close>, what the role-readiness loop sets; \<open>missing_competencies\<close>
  is the content of its keyword \<^verbatim>\<open>metadata\<close>.
\<close>

record SkillsAssessmentItem =
  sai_id :: uuid
  sai_skills_assessment_id :: uuid
  item_type :: string
  label :: "string option"
  readiness_percentage :: "real option"
  evidence :: "string option"
  missing_competencies :: "string list"

record CareerPath =
  cp_id :: uuid
  cp_user_id :: uuid
  cp_skills_assessment_id :: "uuid option"
  path_name :: "string option"
  recommended :: bool
  feasibility_score :: "real option"
  total_duration_months :: "int option"
  cp_status :: string

record CareerPathStep =
  cps_id :: uuid
  career_path_id :: uuid
  step_number :: "int option"
  target_role_id :: "uuid option"
  description :: string
  duration_months :: "int option"

record DevelopmentAction =
  da_id :: uuid
  career_path_step_id :: uuid
  da_skill_id :: "uuid option"
  action_type :: string
  title :: string

text \<open>
  The two JSON payloads of the career-path service, with the keys the code reads. A missing
  key or a JSON null is \<open>None\<close>; a missing array is the empty list, as the
  \<^verbatim>\<open>.get(key, [])\<close> of the source makes it.
\<close>

record competency_json =
  cj_name :: "string option"
  cj_development_actions :: "string list"

record step_json =
  sj_step_number :: "int option"
  sj_target_role :: "string option"
  sj_duration_months :: "int option"
  sj_required_competencies :: "competency_json list"

record path_json =
  pj_path_name :: "string option"
  pj_recommended :: "bool option"
  pj_feasibility_score :: "real option"
  pj_total_duration_months :: "int option"
  pj_steps :: "step_json list"

record career_response =
  generated_paths :: "path_json list"

record role_summary =
  os_role_id :: uuid
  os_role_name :: string
  os_job_family :: "string option"
  os_seniority_level :: "string option"

record career_request =
  rq_user_id :: uuid
  rq_skills_assessment_id :: uuid
  rq_current_position :: string
  rq_career_interests :: "string list"
  rq_time_horizon_years :: int
  rq_organization_structure :: "role_summary list"

record AICallsLog =
  log_id :: uuid
  service_name :: string
  log_user_id :: uuid
  log_skills_assessment_id :: "uuid option"
  log_evaluation_cycle_id :: "uuid option"
  log_career_path_id :: "uuid option"
  request_payload :: career_request
  response_payload :: "career_response option"
  log_status :: string
  error_message :: "string option"
  latency_ms :: "int option"

record db =
  users :: "User list"
  roles :: "Role list"
  skills :: "Skill list"
  evaluations :: "Evaluation list"
  user_skill_scores :: "UserSkillScore list"
  skills_assessments :: "SkillsAssessment list"
  skills_assessment_items :: "SkillsAssessmentItem list"
  career_paths :: "CareerPath list"
  career_path_steps :: "CareerPathStep list"
  development_actions :: "DevelopmentAction list"
  ai_calls_log :: "AICallsLog list"

text \<open>
  The unit of work: \<open>session\<close> is the database as the open transaction sees it,
  \<open>committed\<close> as everybody else does; \<open>commit_log\<close> keeps every state that was ever
  committed, in order; \<open>next_uuid\<close> is what \<^verbatim>\<open>uuid4()\<close> returns next.
\<close>

record system =
  committed :: db
  session :: db
  commit_log :: "db list"
  next_uuid :: uuid

definition commit :: "system \<Rightarrow> system" where
  "commit s = s\<lparr>committed := session s, commit_log := commit_log s @ [session s]\<rparr>"

definition rollback :: "system \<Rightarrow> system" where
  "rollback s = s\<lparr>session := committed s\<rparr>"

text \<open>\<^verbatim>\<open>str(e)\<close> of an exception.\<close>

fun str_exn :: "exn \<Rightarrow> string" where
  "str_exn (Exception msg) = msg"
| "str_exn (RuntimeError msg) = msg"
| "str_exn (TypeError msg) = msg"
| "str_exn (ValueError msg) = msg"
| "str_exn (KeyError k) = [CHR 0x27] @ k @ [CHR 0x27]"
| "str_exn (NotFoundError msg) = msg"
| "str_exn (ValidationError msg) = msg"
| "str_exn (ConflictError msg) = msg"
| "str_exn (IntegrityError msg) = msg"
| "str_exn (DataError msg) = msg"
| "str_exn (ExternalServiceError msg details) = msg"

text \<open>Writing the audit row back: \<^verbatim>\<open>ai_calls_log.update\<close> of the loaded object.\<close>

definition update_log :: "uuid \<Rightarrow> (AICallsLog \<Rightarrow> AICallsLog) \<Rightarrow> db \<Rightarrow> db" where
  "update_log lid f d =
     d\<lparr>ai_calls_log := map (\<lambda>l. if log_id l = lid then f l else l) (ai_calls_log d)\<rparr>"

section \<open>app/services/skills\_assessment\_service.py: the role-readiness items\<close>

text \<open>An entry of \<^verbatim>\<open>readiness_for_roles\<close>; the percentage is a JSON number or null.\<close>

record readiness_json =
  rj_role :: "string option"
  rj_readiness_percentage :: "real option"
  rj_missing_competencies :: "string list"

text \<open>
  The two assignments to \<^verbatim>\<open>normalized\<close> of the loop body, in the order of the source: the
  second one overwrites the first.
\<close>

definition normalized_readiness :: "real option \<Rightarrow> real option" where
  "normalized_readiness readiness_pct =
     (let normalized = (case readiness_pct of None \<Rightarrow> None | Some p \<Rightarrow> Some (p / 1.0));
          normalized = (case readiness_pct of None \<Rightarrow> None | Some p \<Rightarrow> Some (p / 100.0))
      in normalized)"

text \<open>
  The loop \<^verbatim>\<open>for readiness in ai_response.get("readiness_for_roles", [])\<close> of
  \<^verbatim>\<open>generate_assessment\<close>: the items it appends, for the assessment \<open>aid\<close>, with
  identifiers drawn from \<open>n\<close> on. They are handed to \<^verbatim>\<open>create_bulk\<close> with the items of
  the other three categories.
\<close>

fun role_readiness_items :: "uuid \<Rightarrow> uuid \<Rightarrow> readiness_json list \<Rightarrow> SkillsAssessmentItem list" where
  "role_readiness_items aid n [] = []"
| "role_readiness_items aid n (readiness # rest) =
     \<lparr>sai_id = n, sai_skills_assessment_id = aid, item_type = ''role_readiness'',
      label = rj_role readiness,
      readiness_percentage = normalized_readiness (rj_readiness_percentage readiness),
      evidence = None,
      missing_competencies = rj_missing_competencies readiness\<rparr>
     # role_readiness_items aid (n + 1) rest"

text \<open>
  The column \<^verbatim>\<open>readiness_percentage\<close> of \<^verbatim>\<open>skills_assessment_items\<close> is
  \<^verbatim>\<open>Numeric(5, 4)\<close>: PostgreSQL rounds the value it is given to four decimal places,
  ties away from zero, and raises a numeric field overflow when the rounded value does not
  fit five digits, that is, when its absolute value is 10 or more. The constraint
  \<^verbatim>\<open>ck_readiness_percentage_range\<close> then keeps the stored value within 0 and 1. A null
  passes both. Floats are reals here, so the value that is rounded is the exact quotient.
\<close>

definition round_half_away :: "real \<Rightarrow> int" where
  "round_half_away x = (if 0 \<le> x then \<lfloor>x + 1 / 2\<rfloor> else - \<lfloor>- x + 1 / 2\<rfloor>)"

definition numeric_5_4 :: "real \<Rightarrow> real" where
  "numeric_5_4 x = real_of_int (round_half_away (x * 10000)) / 10000"





section \<open>app/services/evaluation\_service.py: the aggregation writer\<close>

text \<open>The first exception of a comprehension, or all its values.\<close>

fun traverse :: "('a \<Rightarrow> exn + 'b) \<Rightarrow> 'a list \<Rightarrow> exn + 'b list" where
  "traverse f [] = Inr []"
| "traverse f (x # xs) =
     (case f x of
        Inl e \<Rightarrow> Inl e
      | Inr y \<Rightarrow> (case traverse f xs of Inl e \<Rightarrow> Inl e | Inr ys \<Rightarrow> Inr (y # ys)))"

text \<open>\<^verbatim>\<open>EvaluationMapper.orm_to_entity\<close>.\<close>

definition orm_to_entity :: "Evaluation \<Rightarrow> exn + EvaluationEntity" where
  "orm_to_entity orm =
     (case traverse (\<lambda>sc. CompetencyScore_init (ecs_skill_id sc) (ecs_score sc) (ecs_comments sc))
             (e_competency_scores orm) of
        Inl e \<Rightarrow> Inl e
      | Inr scores \<Rightarrow>
          Inr \<lparr>ev_id = e_id orm, ev_user_id = e_user_id orm,
               evaluation_cycle_id = e_evaluation_cycle_id orm,
               evaluator_id = e_evaluator_id orm,
               evaluator_relationship = e_evaluator_relationship orm,
               ev_status = e_status orm, competency_scores = scores,
               submitted_at = e_submitted_at orm\<rparr>)"

text \<open>\<^verbatim>\<open>UserSkillScoreRepository.delete_by_user_and_cycle\<close>, without a source filter.\<close>

definition delete_by_user_and_cycle :: "uuid \<Rightarrow> uuid \<Rightarrow> db \<Rightarrow> nat \<times> db" where
  "delete_by_user_and_cycle user_id cycle_id d =
     (length (filter (\<lambda>r. uss_user_id r = user_id \<and> uss_evaluation_cycle_id r = cycle_id)
                (user_skill_scores d)),
      d\<lparr>user_skill_scores :=
           filter (\<lambda>r. \<not> (uss_user_id r = user_id \<and> uss_evaluation_cycle_id r = cycle_id))
             (user_skill_scores d)\<rparr>)"

text \<open>The loop that builds \<^verbatim>\<open>new_scores\<close>, with identifiers drawn from \<open>n\<close> on.\<close>

fun new_scores :: "uuid \<Rightarrow> uuid \<Rightarrow> uuid \<Rightarrow> (uuid \<times> skill_stats) list \<Rightarrow> UserSkillScore list" where
  "new_scores n user_id cycle_id [] = []"
| "new_scores n user_id cycle_id ((sid, stats) # rest) =
     \<lparr>uss_id = n, uss_user_id = user_id, uss_evaluation_cycle_id = cycle_id,
      uss_skill_id = sid, uss_source = ''360_aggregated'',
      uss_score = overall_avg stats, uss_confidence = Some (confidence stats),
      uss_raw_stats = Some (raw_stats stats)\<rparr>
     # new_scores (n + 1) user_id cycle_id rest"

text \<open>
  \<^verbatim>\<open>EvaluationService._aggregate_user_skill_scores\<close>. It works in the open transaction and
  does not commit; an exception of the mapper or of the aggregation leaves before any write.
\<close>

definition aggregate_user_skill_scores :: "uuid \<Rightarrow> uuid \<Rightarrow> system \<Rightarrow> (exn + unit) \<times> system" where
  "aggregate_user_skill_scores user_id cycle_id s =
     (let evaluations_orm =
            filter (\<lambda>e. e_user_id e = user_id \<and> e_evaluation_cycle_id e = cycle_id \<and>
                         e_status e = ''submitted'')
              (evaluations (session s))
      in case traverse orm_to_entity evaluations_orm of
           Inl e \<Rightarrow> (Inl e, s)
         | Inr entities \<Rightarrow>
             (case aggregate_competency_scores entities of
                Inl e \<Rightarrow> (Inl e, s)
              | Inr aggregated \<Rightarrow>
                  let (deleted_count, d1) = delete_by_user_and_cycle user_id cycle_id (session s);
                      scores = new_scores (next_uuid s) user_id cycle_id aggregated;
                      d2 = (if scores \<noteq> []
                            then d1\<lparr>user_skill_scores := user_skill_scores d1 @ scores\<rparr>
                            else d1)
                  in (Inr (), s\<lparr>session := d2, next_uuid := next_uuid s + length scores\<rparr>)))"

text \<open>The rows of a subject and cycle, and a row without its generated identifier.\<close>

definition rows_of :: "uuid \<Rightarrow> uuid \<Rightarrow> db \<Rightarrow> UserSkillScore list" where
  "rows_of user_id cycle_id d =
     filter (\<lambda>r. uss_user_id r = user_id \<and> uss_evaluation_cycle_id r = cycle_id)
       (user_skill_scores d)"

definition other_rows :: "uuid \<Rightarrow> uuid \<Rightarrow> db \<Rightarrow> UserSkillScore list" where
  "other_rows user_id cycle_id d =
     filter (\<lambda>r. \<not> (uss_user_id r = user_id \<and> uss_evaluation_cycle_id r = cycle_id))
       (user_skill_scores d)"

definition without_id :: "UserSkillScore \<Rightarrow> UserSkillScore" where
  "without_id r = r\<lparr>uss_id := 0\<rparr>"

text \<open>
  A store for examples: two submitted evaluations and a pending one of user 1 in cycle 2,
  a stale aggregated row of that user and a row of another user.
\<close>

definition empty_db :: db where
  "empty_db = \<lparr>users = [], roles = [], skills = [], evaluations = [], user_skill_scores = [],
               skills_assessments = [], skills_assessment_items = [], career_paths = [],
               career_path_steps = [],
               development_actions = [], ai_calls_log = []\<rparr>"

definition stored_evaluation :: "uuid \<Rightarrow> string \<Rightarrow> string \<Rightarrow> uuid \<Rightarrow> real \<Rightarrow> Evaluation" where
  "stored_evaluation i relationship status sid x =
     \<lparr>e_id = i, e_user_id = 1, e_evaluation_cycle_id = 2, e_evaluator_id = 3,
      e_evaluator_relationship = relationship, e_status = status,
      e_competency_scores = [\<lparr>ecs_id = i + 100, ecs_skill_id = sid, ecs_score = x,
                               ecs_comments = None\<rparr>],
      e_submitted_at = None\<rparr>"

definition stale_score :: "uuid \<Rightarrow> uuid \<Rightarrow> uuid \<Rightarrow> UserSkillScore" where
  "stale_score i user_id sid =
     \<lparr>uss_id = i, uss_user_id = user_id, uss_evaluation_cycle_id = 2, uss_skill_id = sid,
      uss_source = ''360_aggregated'', uss_score = 1, uss_confidence = None,
      uss_raw_stats = None\<rparr>"

definition aggregation_example :: system where
  "aggregation_example =
     (let d = empty_db
            \<lparr>evaluations := [stored_evaluation 10 ''self'' ''submitted'' 7 8,
                              stored_evaluation 11 ''peer'' ''submitted'' 7 6,
                              stored_evaluation 12 ''peer'' ''pending'' 7 2],
             user_skill_scores := [stale_score 20 1 9, stale_score 21 4 7]\<rparr>
      in \<lparr>committed = d, session = d, commit_log = [], next_uuid = 30\<rparr>)"

section \<open>app/db/repositories: the lookups the services use\<close>

text \<open>
  \<^verbatim>\<open>scalar_one_or_none\<close> on a primary key or a name is the first matching row. The order
  of \<^verbatim>\<open>get_all_active\<close> (by name) is not modelled: it only orders the roles inside the
  audited request payload.
\<close>

definition user_get_by_id :: "uuid \<Rightarrow> db \<Rightarrow> User option" where
  "user_get_by_id user_id d = find (\<lambda>u. u_id u = user_id) (users d)"

definition role_get_by_id :: "uuid \<Rightarrow> db \<Rightarrow> Role option" where
  "role_get_by_id role_id d = find (\<lambda>r. r_id r = role_id) (roles d)"

definition role_get_by_name :: "string \<Rightarrow> db \<Rightarrow> Role option" where
  "role_get_by_name nm d = find (\<lambda>r. r_name r = nm) (roles d)"

definition role_get_all_active :: "nat \<Rightarrow> db \<Rightarrow> Role list" where
  "role_get_all_active limit d = take limit (filter r_is_active (roles d))"

definition skill_get_by_name :: "string \<Rightarrow> db \<Rightarrow> Skill option" where
  "skill_get_by_name nm d = find (\<lambda>sk. s_name sk = nm) (skills d)"

definition assessment_get_by_id :: "uuid \<Rightarrow> db \<Rightarrow> SkillsAssessment option" where
  "assessment_get_by_id assessment_id d = find (\<lambda>a. sa_id a = assessment_id) (skills_assessments d)"

text \<open>
  \<^verbatim>\<open>get_latest_by_user_id\<close>: the completed assessment of the user that comes first by
  \<^verbatim>\<open>processed_at\<close> descending, nulls first; among equals, the first in the table.
\<close>

definition processed_later :: "SkillsAssessment \<Rightarrow> SkillsAssessment \<Rightarrow> bool" where
  "processed_later a b =
     (case (sa_processed_at a, sa_processed_at b) of
        (None, Some y) \<Rightarrow> True
      | (Some x, Some y) \<Rightarrow> x > y
      | _ \<Rightarrow> False)"

definition assessment_get_latest_by_user_id :: "uuid \<Rightarrow> db \<Rightarrow> SkillsAssessment option" where
  "assessment_get_latest_by_user_id user_id d =
     (case filter (\<lambda>a. sa_user_id a = user_id \<and> sa_status a = ''completed'')
             (skills_assessments d) of
        [] \<Rightarrow> None
      | a # rest \<Rightarrow> Some (foldl (\<lambda>best b. if processed_later b best then b else best) a rest))"

definition career_path_get_by_id :: "uuid \<Rightarrow> db \<Rightarrow> CareerPath option" where
  "career_path_get_by_id path_id d = find (\<lambda>p. cp_id p = path_id) (career_paths d)"

text \<open>
  \<^verbatim>\<open>CareerPathRepository.accept_path\<close>: the status of the loaded path is set, then one
  \<^verbatim>\<open>UPDATE\<close> discards the other proposed or accepted paths of the user.
\<close>

definition repo_accept_path :: "uuid \<Rightarrow> uuid \<Rightarrow> db \<Rightarrow> CareerPath option \<times> db" where
  "repo_accept_path path_id user_id d =
     (case career_path_get_by_id path_id d of
        None \<Rightarrow> (None, d)
      | Some path \<Rightarrow>
          if cp_user_id path \<noteq> user_id then (None, d)
          else
            let d1 = d\<lparr>career_paths :=
                       map (\<lambda>p. if cp_id p = path_id then p\<lparr>cp_status := ''accepted''\<rparr> else p)
                         (career_paths d)\<rparr>;
                d2 = d1\<lparr>career_paths :=
                       map (\<lambda>p. if cp_user_id p = user_id \<and> cp_id p \<noteq> path_id \<and>
                                    cp_status p \<in> set [''proposed'', ''accepted'']
                                 then p\<lparr>cp_status := ''discarded''\<rparr> else p)
                         (career_paths d1)\<rparr>
            in (career_path_get_by_id path_id d2, d2))"

section \<open>app/services/career\_path\_service.py\<close>

text \<open>\<^verbatim>\<open>CareerPathService.accept_path\<close>; the response is the accepted row.\<close>

definition accept_path :: "uuid \<Rightarrow> uuid \<Rightarrow> system \<Rightarrow> (exn + CareerPath) \<times> system" where
  "accept_path path_id user_id s =
     (case career_path_get_by_id path_id (session s) of
        None \<Rightarrow> (Inl (NotFoundError (''Career path '' @ str_nat path_id @ '' not found'')), s)
      | Some path \<Rightarrow>
          if cp_user_id path \<noteq> user_id then
            (Inl (ValidationError ''Career path does not belong to user''), s)
          else if cp_status path \<noteq> ''proposed'' then
            (Inl (ConflictError ''Only proposed paths can be accepted''), s)
          else
            (case repo_accept_path path_id user_id (session s) of
               (None, d) \<Rightarrow>
                 (Inl (NotFoundError (''Career path '' @ str_nat path_id @
                        '' not found or doesn't belong to user '' @ str_nat user_id)),
                  s\<lparr>session := d\<rparr>)
             | (Some accepted_path, d) \<Rightarrow> (Inr accepted_path, commit (s\<lparr>session := d\<rparr>))))"

text \<open>Python truthiness of an optional string: neither \<^verbatim>\<open>None\<close> nor empty.\<close>

definition resolve_name :: "string option \<Rightarrow> (string \<Rightarrow> 'a option) \<Rightarrow> 'a option" where
  "resolve_name nm lookup =
     (case nm of None \<Rightarrow> None | Some n \<Rightarrow> if n = [] then None else lookup n)"

text \<open>One \<^verbatim>\<open>CareerPathStep\<close> of the loop over \<^verbatim>\<open>steps_data\<close>, and the loop.\<close>

definition new_step :: "uuid \<Rightarrow> uuid \<Rightarrow> db \<Rightarrow> step_json \<Rightarrow> CareerPathStep" where
  "new_step n path_id d step_data =
     \<lparr>cps_id = n, career_path_id = path_id,
      step_number = sj_step_number step_data,
      target_role_id =
        map_option r_id (resolve_name (sj_target_role step_data) (\<lambda>nm. role_get_by_name nm d)),
      description =
        ''Progress to '' @ (case sj_target_role step_data of None \<Rightarrow> ''None'' | Some nm \<Rightarrow> nm),
      duration_months = sj_duration_months step_data\<rparr>"

fun make_steps :: "uuid \<Rightarrow> uuid \<Rightarrow> db \<Rightarrow> step_json list \<Rightarrow> CareerPathStep list" where
  "make_steps n path_id d [] = []"
| "make_steps n path_id d (step_data # rest) =
     new_step n path_id d step_data # make_steps (n + 1) path_id d rest"

text \<open>
  The keyword classification of an action title. Strings are UTF-8, so the accented
  letters of two keywords are two bytes each.
\<close>

definition action_type_of :: "string \<Rightarrow> string" where
  "action_type_of action_title =
     (if sublist ''Curso'' action_title \<or> sublist ''Course'' action_title then ''course''
      else if sublist ''Proyecto'' action_title \<or> sublist ''Project'' action_title then ''project''
      else if sublist (''Mentor'' @ [CHR 0xC3, CHR 0xAD] @ ''a'') action_title \<or>
              sublist ''Mentoring'' action_title then ''mentoring''
      else if sublist ''Shadowing'' action_title then ''shadowing''
      else if sublist (''Certificaci'' @ [CHR 0xC3, CHR 0xB3] @ ''n'') action_title \<or>
              sublist ''Certification'' action_title then ''certification''
      else ''other'')"

fun title_actions :: "uuid \<Rightarrow> uuid \<Rightarrow> uuid option \<Rightarrow> string list \<Rightarrow> DevelopmentAction list" where
  "title_actions n step_id resolved_skill [] = []"
| "title_actions n step_id resolved_skill (action_title # rest) =
     \<lparr>da_id = n, career_path_step_id = step_id, da_skill_id = resolved_skill,
      action_type = action_type_of action_title, title = action_title\<rparr>
     # title_actions (n + 1) step_id resolved_skill rest"

fun competency_actions :: "uuid \<Rightarrow> uuid \<Rightarrow> db \<Rightarrow> competency_json list \<Rightarrow> DevelopmentAction list" where
  "competency_actions n step_id d [] = []"
| "competency_actions n step_id d (competency # rest) =
     (let resolved_skill = map_option s_id
                       (resolve_name (cj_name competency) (\<lambda>nm. skill_get_by_name nm d));
          actions = title_actions n step_id resolved_skill (cj_development_actions competency)
      in actions @ competency_actions (n + length actions) step_id d rest)"

text \<open>
  \<^verbatim>\<open>session.flush()\<close> sends the rows added to the session to the database, which raises
  when one of them violates a constraint of the schema. The parameter \<open>flush\<close> of the
  functions below is that answer for the store with the rows added: the exception raised, or
  \<open>None\<close>. When the flush raises, the service stops with the exception; what the session
  holds then is discarded when the session is closed.
\<close>

text \<open>The loop over \<^verbatim>\<open>zip(created_steps, steps_data)\<close> with its bulk insert per step.\<close>

fun add_actions ::
  "(db \<Rightarrow> exn option) \<Rightarrow> uuid \<Rightarrow> (CareerPathStep \<times> step_json) list \<Rightarrow> db \<Rightarrow>
   exn option \<times> db \<times> uuid" where
  "add_actions flush n [] d = (None, d, n)"
| "add_actions flush n ((step, step_data) # rest) d =
     (let actions = competency_actions n (cps_id step) d (sj_required_competencies step_data)
      in if actions \<noteq> [] then
           (let d' = d\<lparr>development_actions := development_actions d @ actions\<rparr>
            in case flush d' of
                 Some e \<Rightarrow> (Some e, d', n + length actions)
               | None \<Rightarrow> add_actions flush (n + length actions) rest d')
         else add_actions flush (n + length actions) rest d)"

text \<open>
  The \<^verbatim>\<open>CareerPath\<close> a generated path becomes, the body of the loop over
  \<^verbatim>\<open>generated_paths\<close>, and the loop.
\<close>

definition new_career_path :: "uuid \<Rightarrow> uuid \<Rightarrow> uuid \<Rightarrow> path_json \<Rightarrow> CareerPath" where
  "new_career_path n user_id assessment_id path_data =
     \<lparr>cp_id = n, cp_user_id = user_id, cp_skills_assessment_id = Some assessment_id,
      path_name = pj_path_name path_data,
      recommended = (case pj_recommended path_data of None \<Rightarrow> False | Some b \<Rightarrow> b),
      feasibility_score = pj_feasibility_score path_data,
      total_duration_months = pj_total_duration_months path_data,
      cp_status = ''proposed''\<rparr>"

definition persist_path ::
  "(db \<Rightarrow> exn option) \<Rightarrow> uuid \<Rightarrow> uuid \<Rightarrow> uuid \<Rightarrow> path_json \<Rightarrow> db \<Rightarrow>
   (exn + CareerPath) \<times> db \<times> uuid" where
  "persist_path flush n user_id assessment_id path_data d =
     (let career_path = new_career_path n user_id assessment_id path_data;
          d1 = d\<lparr>career_paths := career_paths d @ [career_path]\<rparr>
      in case flush d1 of
           Some e \<Rightarrow> (Inl e, d1, n + 1)
         | None \<Rightarrow>
             (let created_steps = make_steps (n + 1) n d1 (pj_steps path_data);
                  d2 = (if created_steps \<noteq> []
                        then d1\<lparr>career_path_steps := career_path_steps d1 @ created_steps\<rparr>
                        else d1);
                  n2 = n + 1 + length created_steps
              in case (if created_steps \<noteq> [] then flush d2 else None) of
                   Some e \<Rightarrow> (Inl e, d2, n2)
                 | None \<Rightarrow>
                     (case add_actions flush n2 (zip created_steps (pj_steps path_data)) d2 of
                        (Some e, d3, n') \<Rightarrow> (Inl e, d3, n')
                      | (None, d3, n') \<Rightarrow> (Inr career_path, d3, n'))))"

fun persist_paths ::
  "(db \<Rightarrow> exn option) \<Rightarrow> uuid \<Rightarrow> uuid \<Rightarrow> uuid \<Rightarrow> path_json list \<Rightarrow> db \<Rightarrow>
   (exn + CareerPath list) \<times> db \<times> uuid" where
  "persist_paths flush n user_id assessment_id [] d = (Inr [], d, n)"
| "persist_paths flush n user_id assessment_id (path_data # rest) d =
     (case persist_path flush n user_id assessment_id path_data d of
        (Inl e, d', n') \<Rightarrow> (Inl e, d', n')
      | (Inr created_path, d', n') \<Rightarrow>
          (case persist_paths flush n' user_id assessment_id rest d' of
             (Inl e, d'', n'') \<Rightarrow> (Inl e, d'', n'')
           | (Inr created_paths, d'', n'') \<Rightarrow> (Inr (created_path # created_paths), d'', n'')))"

text \<open>
  The request payload \<^verbatim>\<open>CareerPathService.generate_career_paths\<close> builds, and the audit
  row it creates before the call.
\<close>

definition request_payload_of ::
  "User \<Rightarrow> SkillsAssessment \<Rightarrow> uuid \<Rightarrow> string list option \<Rightarrow> int \<Rightarrow> db \<Rightarrow> career_request" where
  "request_payload_of user assessment user_id career_interests time_horizon_years d =
     (let current_position =
            (case u_role_id user of
               None \<Rightarrow> ''Unknown''
             | Some rid \<Rightarrow>
                 (case role_get_by_id rid d of
                    None \<Rightarrow> ''Unknown'' | Some role \<Rightarrow> r_name role));
          organization_structure =
            map (\<lambda>role. \<lparr>os_role_id = r_id role, os_role_name = r_name role,
                          os_job_family = r_job_family role,
                          os_seniority_level = r_seniority_level role\<rparr>)
              (role_get_all_active 1000 d)
      in \<lparr>rq_user_id = user_id, rq_skills_assessment_id = sa_id assessment,
          rq_current_position = current_position,
          rq_career_interests = (case career_interests of None \<Rightarrow> [] | Some ci \<Rightarrow> ci),
          rq_time_horizon_years = time_horizon_years,
          rq_organization_structure = organization_structure\<rparr>)"

definition pending_log :: "uuid \<Rightarrow> uuid \<Rightarrow> SkillsAssessment \<Rightarrow> career_request \<Rightarrow> AICallsLog" where
  "pending_log n user_id assessment request =
     \<lparr>log_id = n, service_name = ''career_paths'', log_user_id = user_id,
      log_skills_assessment_id = Some (sa_id assessment),
      log_evaluation_cycle_id = sa_evaluation_cycle_id assessment,
      log_career_path_id = None, request_payload = request,
      response_payload = None, log_status = ''pending'', error_message = None,
      latency_ms = None\<rparr>"

text \<open>
  \<^verbatim>\<open>CareerPathService.generate_career_paths\<close>. \<open>ai_call\<close> is what awaiting the client
  does, an exception or a response, and \<open>latency\<close> the milliseconds measured around it;
  the responses returned are the created rows.
\<close>

definition generate_career_paths ::
  "(db \<Rightarrow> exn option) \<Rightarrow> (exn + career_response) \<Rightarrow> int \<Rightarrow> uuid \<Rightarrow> uuid option \<Rightarrow> string list option \<Rightarrow> int \<Rightarrow>
   system \<Rightarrow> (exn + CareerPath list) \<times> system" where
  "generate_career_paths flush ai_call latency user_id skills_assessment_id career_interests
     time_horizon_years s =
     (case user_get_by_id user_id (session s) of
        None \<Rightarrow> (Inl (NotFoundError (''User '' @ str_nat user_id @ '' not found'')), s)
      | Some user \<Rightarrow>
     (case (case skills_assessment_id of
              Some aid \<Rightarrow> assessment_get_by_id aid (session s)
            | None \<Rightarrow> assessment_get_latest_by_user_id user_id (session s)) of
        None \<Rightarrow>
          (Inl (NotFoundError
                 (case skills_assessment_id of
                    Some aid \<Rightarrow> ''Skills assessment '' @ str_nat aid @ '' not found''
                  | None \<Rightarrow> ''No skills assessment found for user '' @ str_nat user_id)), s)
      | Some assessment \<Rightarrow>
          let request = request_payload_of user assessment user_id career_interests
                          time_horizon_years (session s);
              ai_log = pending_log (next_uuid s) user_id assessment request;
              s1 = commit (s\<lparr>session := (session s)\<lparr>ai_calls_log :=
                                                     ai_calls_log (session s) @ [ai_log]\<rparr>,
                             next_uuid := next_uuid s + 1\<rparr>)
          in (case ai_call of
               Inl e \<Rightarrow>
                 (Inl (ExternalServiceError (''AI Career Path service failed: '' @ str_exn e)
                         [Service ''career_paths'']),
                  commit (s1\<lparr>session :=
                     update_log (log_id ai_log)
                       (\<lambda>l. l\<lparr>log_status := ''error'', error_message := Some (str_exn e)\<rparr>)
                       (session s1)\<rparr>))
             | Inr ai_response \<Rightarrow>
                 (case persist_paths flush (next_uuid s1) user_id (sa_id assessment)
                         (generated_paths ai_response) (session s1) of
                    (Inl e, d, n) \<Rightarrow> (Inl e, s1\<lparr>session := d, next_uuid := n\<rparr>)
                  | (Inr created_paths, d, n) \<Rightarrow>
                      let d' = update_log (log_id ai_log)
                                 (\<lambda>l. l\<lparr>log_career_path_id :=
                                            (case created_paths of
                                               [] \<Rightarrow> log_career_path_id l
                                             | p # ps \<Rightarrow> Some (cp_id p)),
                                          log_status := ''success'',
                                          response_payload := Some ai_response,
                                          latency_ms := Some latency\<rparr>) d
                      in (Inr created_paths, commit (s1\<lparr>session := d', next_uuid := n\<rparr>))))))"

text \<open>
  The actions the loop \<open>add_actions\<close> inserts, as one list, and the titles a step, a path
  and a response list.
\<close>

fun steps_actions :: "uuid \<Rightarrow> db \<Rightarrow> (CareerPathStep \<times> step_json) list \<Rightarrow> DevelopmentAction list" where
  "steps_actions n d [] = []"
| "steps_actions n d ((step, step_data) # rest) =
     (let actions = competency_actions n (cps_id step) d (sj_required_competencies step_data)
      in actions @ steps_actions (n + length actions) d rest)"

definition step_titles :: "step_json \<Rightarrow> string list" where
  "step_titles step_data = concat (map cj_development_actions (sj_required_competencies step_data))"

definition path_titles :: "path_json \<Rightarrow> string list" where
  "path_titles path_data = concat (map step_titles (pj_steps path_data))"

text \<open>The step rows and the action rows one generated path becomes.\<close>

definition path_steps :: "uuid \<Rightarrow> db \<Rightarrow> path_json \<Rightarrow> CareerPathStep list" where
  "path_steps n d path_data = make_steps (n + 1) n d (pj_steps path_data)"

definition path_actions :: "uuid \<Rightarrow> db \<Rightarrow> path_json \<Rightarrow> DevelopmentAction list" where
  "path_actions n d path_data =
     steps_actions (n + 1 + length (pj_steps path_data)) d
       (zip (path_steps n d path_data) (pj_steps path_data))"

text \<open>
  No subject owns two accepted paths: primary keys are distinct, and two accepted rows of
  one user are the same row.
\<close>

definition one_accepted_per_user :: "db \<Rightarrow> bool" where
  "one_accepted_per_user d \<longleftrightarrow>
     distinct (map cp_id (career_paths d)) \<and>
     (\<forall>p \<in> set (career_paths d). \<forall>q \<in> set (career_paths d).
        cp_status p = ''accepted'' \<and> cp_status q = ''accepted'' \<and> cp_user_id p = cp_user_id q
        \<longrightarrow> p = q)"

text \<open>
  The constraints of the tables \<^verbatim>\<open>career_paths\<close> and \<^verbatim>\<open>career_path_steps\<close> that rows
  built from a response can violate: \<^verbatim>\<open>path_name\<close> and \<^verbatim>\<open>step_number\<close> are
  \<^verbatim>\<open>nullable=False\<close>, \<^verbatim>\<open>ck_feasibility_score_range\<close> keeps the score within 0 and 1, and
  \<^verbatim>\<open>uq_career_path_step_number\<close> makes the pair of parent and step number unique.
\<close>

definition integrity_check :: "db \<Rightarrow> exn option" where
  "integrity_check d =
     (if \<not> list_all (\<lambda>p. path_name p \<noteq> None) (career_paths d) then
        Some (IntegrityError ''null value in column path_name'')
      else if \<not> list_all (\<lambda>p. case feasibility_score p of
                                  None \<Rightarrow> True | Some x \<Rightarrow> 0 \<le> x \<and> x \<le> 1) (career_paths d) then
        Some (IntegrityError ''ck_feasibility_score_range'')
      else if \<not> list_all (\<lambda>st. step_number st \<noteq> None) (career_path_steps d) then
        Some (IntegrityError ''null value in column step_number'')
      else if \<not> distinct (map (\<lambda>st. (career_path_id st, step_number st)) (career_path_steps d)) then
        Some (IntegrityError ''uq_career_path_step_number'')
      else None)"

text \<open>What the two statements of \<^verbatim>\<open>CareerPathRepository.accept_path\<close> make of one row.\<close>

definition accept_row :: "uuid \<Rightarrow> uuid \<Rightarrow> CareerPath \<Rightarrow> CareerPath" where
  "accept_row path_id user_id p =
     (if cp_id p = path_id then p\<lparr>cp_status := ''accepted''\<rparr>
      else if cp_user_id p = user_id \<and> (cp_status p = ''proposed'' \<or> cp_status p = ''accepted'')
      then p\<lparr>cp_status := ''discarded''\<rparr>
      else p)"

text \<open>
  The states the two operations that write career paths reach, with any arguments, any
  behaviour of the AI client and of the database, from a store without career paths. Every
  request has a session of its own (\<^verbatim>\<open>get_db\<close>), and closing it discards what was not
  committed.
\<close>

inductive reachable :: "system \<Rightarrow> bool" where
  initial:
    "career_paths (session s) = [] \<Longrightarrow> committed s = session s \<Longrightarrow> commit_log s = [] \<Longrightarrow>
     reachable s"
| generated:
    "reachable s \<Longrightarrow>
     generate_career_paths flush ai_call latency user_id skills_assessment_id career_interests
       time_horizon_years s = (r, s') \<Longrightarrow>
     reachable (rollback s')"
| accepted:
    "reachable s \<Longrightarrow> accept_path path_id user_id s = (r', s') \<Longrightarrow> reachable (rollback s')"

text \<open>
  What every request leaves behind: the session holds nothing uncommitted, no state that
  was committed has a subject with two accepted paths, and every key is below the next
  \<^verbatim>\<open>uuid4()\<close>.
\<close>

definition consistent :: "system \<Rightarrow> bool" where
  "consistent s \<longleftrightarrow>
     session s = committed s \<and> one_accepted_per_user (committed s) \<and>
     list_all one_accepted_per_user (commit_log s) \<and>
     list_all (\<lambda>p. cp_id p < next_uuid s) (career_paths (committed s))"

text \<open>
  A store with one user, one completed skills assessment, one role and one skill, and a
  response of the AI service with two paths of two steps each; the second path continues
  the numbering of the first.
\<close>

definition example_store :: db where
  "example_store =
     empty_db\<lparr>users := [\<lparr>u_id = 1, u_role_id = None\<rparr>],
               roles := [\<lparr>r_id = 6, r_name = ''Senior Manager'', r_job_family = None,
                          r_seniority_level = None, r_is_active = True\<rparr>],
               skills := [\<lparr>s_id = 5, s_name = ''Leadership''\<rparr>],
               skills_assessments := [\<lparr>sa_id = 2, sa_user_id = 1, sa_evaluation_cycle_id = Some 3,
                                        sa_status = ''completed'', sa_processed_at = Some 0\<rparr>]\<rparr>"

definition example_system :: system where
  "example_system = \<lparr>committed = example_store, session = example_store, commit_log = [],
                      next_uuid = 10\<rparr>"

definition example_step :: "int \<Rightarrow> string \<Rightarrow> string list \<Rightarrow> step_json" where
  "example_step k role titles =
     \<lparr>sj_step_number = Some k, sj_target_role = Some role, sj_duration_months = Some 12,
      sj_required_competencies =
        [\<lparr>cj_name = Some ''Leadership'', cj_development_actions = titles\<rparr>]\<rparr>"

definition example_response :: career_response where
  "example_response =
     \<lparr>generated_paths =
        [\<lparr>pj_path_name = Some ''Leadership Track'', pj_recommended = Some True,
          pj_feasibility_score = Some (4 / 5), pj_total_duration_months = Some 24,
          pj_steps = [example_step 1 ''Senior Manager'' [''Leadership Course''],
                      example_step 2 ''Director'' []]\<rparr>,
         \<lparr>pj_path_name = Some ''Specialist Track'', pj_recommended = None,
          pj_feasibility_score = None, pj_total_duration_months = Some 24,
          pj_steps = [example_step 3 ''Staff Engineer'' [''Mentoring'', ''Project X''],
                      example_step 4 ''Principal Engineer'' []]\<rparr>]\<rparr>"




section \<open>Verified properties: the resilience layer\<close>

lemma retry_events_Suc:
  "retry_events d b (Suc k) = [Invoked, Slept d] @ retry_events (d * b) b k"
  by (simp add: retry_events_def backoff_delays_def map_upt_Suc mult.assoc del: upt_Suc)

lemma invoke_simps:
  "fst (invoke f w) = f (invocations w)"
  "invocations (snd (invoke f w)) = invocations w + 1"
  "events (snd (invoke f w)) = events w @ [Invoked]"
  "clock (snd (invoke f w)) = clock w"
  by (simp_all add: invoke_def)

lemma invoke_cases:
  obtains w' where "invoke f w = (f (invocations w), w')"
    and "invocations w' = invocations w + 1" and "events w' = events w @ [Invoked]"
    and "clock w' = clock w"
  using that [of "w\<lparr>invocations := invocations w + 1, events := events w @ [Invoked]\<rparr>"]
  by (simp add: invoke_def)

lemma asleep_simps:
  "invocations (asleep d w) = invocations w"
  "events (asleep d w) = events w @ [Slept d]"
  by (simp_all add: asleep_def)

lemma retry_loop_scripted:
  assumes "\<forall>i<k. isl (f (invocations w + i))"
    and "attempt + int k \<le> max_attempts"
    and "\<not> isl (f (invocations w + k)) \<or> attempt + int k = max_attempts"
  shows "fst (retry_loop asleep (invoke f) max_attempts b attempt d lastx w) = f (invocations w + k)
       \<and> invocations (snd (retry_loop asleep (invoke f) max_attempts b attempt d lastx w)) = invocations w + k + 1
       \<and> events (snd (retry_loop asleep (invoke f) max_attempts b attempt d lastx w)) = events w @ retry_events d b k"
  using assms
proof (induction k arbitrary: attempt d lastx w)
  case 0
  obtain w' where w': "invoke f w = (f (invocations w), w')"
    "invocations w' = invocations w + 1" "events w' = events w @ [Invoked]"
    by (rule invoke_cases)
  show ?case
  proof (cases "f (invocations w)")
    case (Inr v)
    with 0 w' have "retry_loop asleep (invoke f) max_attempts b attempt d lastx w = (Inr v, w')"
      by (subst retry_loop.simps) simp
    with Inr w' show ?thesis
      by (simp add: retry_events_def backoff_delays_def)
  next
    case (Inl e)
    with 0 have eq: "attempt = max_attempts" by simp
    have "retry_loop asleep (invoke f) max_attempts b attempt d lastx w =
          retry_loop asleep (invoke f) max_attempts b (attempt + 1) d (Some e) w'"
      using eq Inl w' by (subst retry_loop.simps) simp
    also have "\<dots> = (Inl e, w')"
      using eq by (subst retry_loop.simps) simp
    finally show ?thesis using Inl w'
      by (simp add: retry_events_def backoff_delays_def)
  qed
next
  case (Suc k)
  from Suc.prems(1) obtain e where e: "f (invocations w) = Inl e"
    by (metis add.right_neutral isl_def zero_less_Suc)
  obtain w' where w': "invoke f w = (f (invocations w), w')"
    "invocations w' = invocations w + 1" "events w' = events w @ [Invoked]"
    by (rule invoke_cases)
  define w1 where "w1 = asleep d w'"
  have inv1: "invocations w1 = invocations w + 1" and ev1: "events w1 = events w @ [Invoked, Slept d]"
    by (simp_all add: w1_def asleep_simps w')
  have step: "retry_loop asleep (invoke f) max_attempts b attempt d lastx w =
              retry_loop asleep (invoke f) max_attempts b (attempt + 1) (d * b) (Some e) w1"
    using Suc.prems(2) e w'
    by (subst retry_loop.simps) (simp add: w1_def)
  have "\<forall>i<k. isl (f (invocations w1 + i))" using Suc.prems(1) inv1 by auto
  moreover have "attempt + 1 + int k \<le> max_attempts" using Suc.prems(2) by simp
  moreover have "\<not> isl (f (invocations w1 + k)) \<or> attempt + 1 + int k = max_attempts"
    using Suc.prems(3) inv1 by auto
  ultimately show ?case
    using Suc.IH [of w1 "attempt + 1" "d * b" "Some e"] step inv1 ev1
    by (simp add: retry_events_Suc)
qed

lemma call_failure_counts_once:
  assumes "state cb \<noteq> OPEN \<or> should_attempt_reset (time w) cb"
    and "fst (func w) = Inl e"
  shows "fst (call time func (cb, w)) = Inl e
       \<and> failure_count (fst (snd (call time func (cb, w)))) = failure_count cb + 1
       \<and> snd (snd (call time func (cb, w))) = snd (func w)"
  using assms by (cases "func w") (auto simp: call_def Let_def)


lemma failures_Suc: "failures f (Suc n) = failures f n + (if isl (f n) then 1 else 0)"
  by (simp add: failures_def)

lemma failures_all: "\<forall>i<n. isl (f i) \<Longrightarrow> failures f n = n"
  by (induction n) (simp_all add: failures_Suc failures_def)

lemma calls_closed_run:
  assumes "int (failures f n) < thr"
  shows "calls clock (invoke f) n (CircuitBreaker_init thr tmo nm, world0 t0) =
       ((CircuitBreaker_init thr tmo nm)
          \<lparr>failure_count := int (failures f n),
           last_failure_time := (if failures f n = 0 then None else Some t0)\<rparr>,
        \<lparr>invocations = n, events = replicate n Invoked, clock = t0\<rparr>)"
  using assms
proof (induction n)
  case 0
  then show ?case by (simp add: failures_def CircuitBreaker_init_def world0_def)
next
  case (Suc n)
  then have lt: "int (failures f n) < thr" by (simp add: failures_Suc split: if_splits)
  note IH = Suc.IH [OF lt]
  show ?case
  proof (cases "f n")
    case (Inl e)
    with Suc.prems have "int (failures f n) + 1 < thr" by (simp add: failures_Suc)
    then show ?thesis using Inl IH
      by (simp add: call_def invoke_def Let_def failures_Suc CircuitBreaker_init_def
            replicate_append_same)
  next
    case (Inr v)
    then show ?thesis using IH
      by (simp add: call_def invoke_def Let_def failures_Suc CircuitBreaker_init_def
            replicate_append_same)
  qed
qed

lemma calls_opening_failure:
  assumes "int (failures f n) = thr - 1" and "isl (f n)"
  shows "calls clock (invoke f) (Suc n) (CircuitBreaker_init thr tmo nm, world0 t0) =
       ((CircuitBreaker_init thr tmo nm)
          \<lparr>failure_count := thr, last_failure_time := Some t0, state := OPEN\<rparr>,
        \<lparr>invocations = Suc n, events = replicate (Suc n) Invoked, clock = t0\<rparr>)"
proof -
  from assms(1) have lt: "int (failures f n) < thr" by simp
  from assms(2) obtain e where e: "f n = Inl e" by (auto simp: isl_def)
  show ?thesis
    using calls_closed_run [OF lt, of tmo nm t0] e assms(1)
    by (simp add: call_def invoke_def Let_def CircuitBreaker_init_def replicate_append_same)
qed

lemma call_preserves_cb_inv:
  assumes "cb_inv cb"
  shows "cb_inv (fst (snd (call time func (cb, w))))"
  using assms
  by (cases "func w"; cases "fst (func w)")
     (auto simp: call_def cb_inv_def Let_def should_attempt_reset_def split: option.splits)

lemma slept_interleaved: "slept (concat (map (\<lambda>d. [Invoked, Slept d]) ds) @ [Invoked]) = ds"
  by (induction ds) simp_all

lemma slept_retry_events: "slept (retry_events d b k) = backoff_delays d b k"
  by (simp add: retry_events_def slept_interleaved)



lemma call_open_rejected:
  "state cb = OPEN \<Longrightarrow> last_failure_time cb = Some t \<Longrightarrow> time w - t < timeout cb \<Longrightarrow>
   call time func (cb, w) = (Inl (circuit_open_error cb), cb, w)"
  by (simp add: call_def should_attempt_reset_def)

lemma call_half_open_success:
  "state cb = OPEN \<Longrightarrow> last_failure_time cb = Some t \<Longrightarrow> time w - t \<ge> timeout cb \<Longrightarrow>
   func w = (Inr v, w') \<Longrightarrow>
   call time func (cb, w) =
     (Inr v, cb\<lparr>state := CLOSED, failure_count := 0, last_failure_time := None\<rparr>, w')"
  by (simp add: call_def should_attempt_reset_def)

lemma call_half_open_failure:
  "state cb = OPEN \<Longrightarrow> last_failure_time cb = Some t \<Longrightarrow> time w - t \<ge> timeout cb \<Longrightarrow>
   failure_threshold cb \<le> failure_count cb \<Longrightarrow> func w = (Inl e, w') \<Longrightarrow>
   call time func (cb, w) =
     (Inl e,
      cb\<lparr>failure_count := failure_count cb + 1, last_failure_time := Some (time w'),
         state := OPEN\<rparr>, w')"
  by (simp add: call_def should_attempt_reset_def Let_def)

lemma call_half_open_trial:
  assumes "state cb = OPEN" "last_failure_time cb = Some t" "time w - t \<ge> timeout cb"
    "failure_threshold cb \<le> failure_count cb"
  shows "case func w of
           (Inr v, w') \<Rightarrow>
             call time func (cb, w) =
               (Inr v, cb\<lparr>state := CLOSED, failure_count := 0, last_failure_time := None\<rparr>, w')
         | (Inl e, w') \<Rightarrow>
             call time func (cb, w) =
               (Inl e, cb\<lparr>failure_count := failure_count cb + 1,
                          last_failure_time := Some (time w'), state := OPEN\<rparr>, w')"
proof (cases "func w")
  case (Pair r w')
  show ?thesis
  proof (cases r)
    case (Inl e)
    with Pair assms show ?thesis by (simp add: call_half_open_failure [of cb t time w func e w'])
  next
    case (Inr v)
    with Pair assms show ?thesis by (simp add: call_half_open_success [of cb t time w func v w'])
  qed
qed

lemma opens_after_threshold_failures:
  assumes "1 \<le> threshold" and "\<forall>i < nat threshold. isl (f i)"
  shows "calls clock (invoke f) (nat threshold) (CircuitBreaker_init threshold tmo nm, world0 t0) =
       ((CircuitBreaker_init threshold tmo nm)
          \<lparr>failure_count := threshold, last_failure_time := Some t0, state := OPEN\<rparr>,
        \<lparr>invocations = nat threshold, events = replicate (nat threshold) Invoked, clock = t0\<rparr>)"
proof -
  define n where "n = nat threshold - 1"
  from assms have n: "nat threshold = Suc n" by (simp add: n_def)
  from assms n have "failures f n = n" by (intro failures_all) simp
  with assms n have 1: "int (failures f n) = threshold - 1" by linarith
  from assms n have 2: "isl (f n)" by simp
  show ?thesis unfolding n by (rule calls_opening_failure [OF 1 2])
qed

text \<open>
  Claim C2. After \<open>failure_threshold\<close> consecutive failing calls a new breaker is open,
  with the time of the last failure recorded and the function invoked once per call. An
  open breaker rejects every call made less than \<open>timeout\<close> seconds after the last
  failure, with the circuit-open error and without awaiting the function (the world is
  untouched and the result does not depend on \<open>func\<close>). The first call at or after that
  time awaits the function as the half-open trial: a success closes the breaker, resets the
  counter to 0 and clears the failure time; a failure increments the counter, records the
  new failure time and leaves the breaker open.
\<close>

theorem circuit_breaker_state_machine:
  fixes func :: "('w, 'a) awaitable" and f :: "nat \<Rightarrow> exn + 'b"
  shows
    "(1 \<le> threshold \<and> (\<forall>i < nat threshold. isl (f i)) \<longrightarrow>
        (let (cb0, w0) = calls clock (invoke f) (nat threshold)
                           (CircuitBreaker_init threshold tmo nm, world0 t0)
         in cb_inv cb0 \<and> state cb0 = OPEN \<and> failure_count cb0 = threshold \<and>
            last_failure_time cb0 = Some t0 \<and> invocations w0 = nat threshold))
   \<and> (cb_inv cb \<and> state cb = OPEN \<longrightarrow>
        (\<exists>t. last_failure_time cb = Some t \<and>
          (time w - t < timeout cb \<longrightarrow>
             call time func (cb, w) = (Inl (circuit_open_error cb), cb, w)) \<and>
          (time w - t \<ge> timeout cb \<longrightarrow>
             (case func w of
                (Inr v, w') \<Rightarrow>
                  call time func (cb, w) =
                    (Inr v, cb\<lparr>state := CLOSED, failure_count := 0, last_failure_time := None\<rparr>, w')
              | (Inl e, w') \<Rightarrow>
                  call time func (cb, w) =
                    (Inl e, cb\<lparr>failure_count := failure_count cb + 1,
                               last_failure_time := Some (time w'), state := OPEN\<rparr>, w')))))"
proof (intro conjI impI)
  assume a: "1 \<le> threshold \<and> (\<forall>i < nat threshold. isl (f i))"
  then have "calls clock (invoke f) (nat threshold) (CircuitBreaker_init threshold tmo nm, world0 t0) =
       ((CircuitBreaker_init threshold tmo nm)
          \<lparr>failure_count := threshold, last_failure_time := Some t0, state := OPEN\<rparr>,
        \<lparr>invocations = nat threshold, events = replicate (nat threshold) Invoked, clock = t0\<rparr>)"
    by (intro opens_after_threshold_failures) simp_all
  then show "let (cb0, w0) = calls clock (invoke f) (nat threshold)
                           (CircuitBreaker_init threshold tmo nm, world0 t0)
        in cb_inv cb0 \<and> state cb0 = OPEN \<and> failure_count cb0 = threshold \<and>
           last_failure_time cb0 = Some t0 \<and> invocations w0 = nat threshold"
    by (simp add: cb_inv_def CircuitBreaker_init_def)
next
  assume b: "cb_inv cb \<and> state cb = OPEN"
  then obtain t where t: "last_failure_time cb = Some t"
    and thr: "failure_threshold cb \<le> failure_count cb" and st: "state cb = OPEN"
    by (auto simp: cb_inv_def)
  have rej: "time w - t < timeout cb \<longrightarrow> call time func (cb, w) = (Inl (circuit_open_error cb), cb, w)"
    by (rule impI, rule call_open_rejected [of cb t time w func]) (use st t in simp_all)
  have trial: "time w - t \<ge> timeout cb \<longrightarrow>
             (case func w of
                (Inr v, w') \<Rightarrow>
                  call time func (cb, w) =
                    (Inr v, cb\<lparr>state := CLOSED, failure_count := 0, last_failure_time := None\<rparr>, w')
              | (Inl e, w') \<Rightarrow>
                  call time func (cb, w) =
                    (Inl e, cb\<lparr>failure_count := failure_count cb + 1,
                               last_failure_time := Some (time w'), state := OPEN\<rparr>, w'))"
    by (rule impI, rule call_half_open_trial [of cb t time w func]) (use st t thr in simp_all)
  show "\<exists>t. last_failure_time cb = Some t \<and>
          (time w - t < timeout cb \<longrightarrow>
             call time func (cb, w) = (Inl (circuit_open_error cb), cb, w)) \<and>
          (time w - t \<ge> timeout cb \<longrightarrow>
             (case func w of
                (Inr v, w') \<Rightarrow>
                  call time func (cb, w) =
                    (Inr v, cb\<lparr>state := CLOSED, failure_count := 0, last_failure_time := None\<rparr>, w')
              | (Inl e, w') \<Rightarrow>
                  call time func (cb, w) =
                    (Inl e, cb\<lparr>failure_count := failure_count cb + 1,
                               last_failure_time := Some (time w'), state := OPEN\<rparr>, w')))"
    by (rule exI [of _ t], intro conjI) (rule t, rule rej, rule trial)
qed


text \<open>
  The statement at a breaker of threshold 2 and timeout 60 whose two calls failed at time
  100: a call at 101 is rejected, a call at 160 is the trial, succeeding or failing.
\<close>

theorem circuit_breaker_state_machine_witness:
  "(let fail = (\<lambda>i. Inl (ValueError ''Fail'')) :: nat \<Rightarrow> exn + nat;
        ok = (\<lambda>i. Inr 7) :: nat \<Rightarrow> exn + nat;
        opened = \<lparr>failure_threshold = 2, timeout = 60, name = ''test'', failure_count = 2,
                  last_failure_time = Some 100, state = OPEN\<rparr>;
        early = \<lparr>invocations = 2, events = [Invoked, Invoked], clock = 101\<rparr>;
        late = \<lparr>invocations = 2, events = [Invoked, Invoked], clock = 160\<rparr>;
        late' = \<lparr>invocations = 3, events = [Invoked, Invoked, Invoked], clock = 160\<rparr>
    in (1::int) \<le> 2 \<and> (\<forall>i < nat 2. isl (fail i))
     \<and> calls clock (invoke fail) (nat 2) (CircuitBreaker_init 2 60 ''test'', world0 100) =
         (opened, \<lparr>invocations = 2, events = [Invoked, Invoked], clock = 100\<rparr>)
     \<and> cb_inv opened \<and> state opened = OPEN
     \<and> call clock (invoke ok) (opened, early) = (Inl (circuit_open_error opened), opened, early)
     \<and> call clock (invoke ok) (opened, late) =
         (Inr 7, opened\<lparr>state := CLOSED, failure_count := 0, last_failure_time := None\<rparr>, late')
     \<and> call clock (invoke fail) (opened, late) =
         (Inl (ValueError ''Fail''),
          opened\<lparr>failure_count := 3, last_failure_time := Some 160, state := OPEN\<rparr>, late'))"
  using circuit_breaker_state_machine
      [of 2 "(\<lambda>i. Inl (ValueError ''Fail'')) :: nat \<Rightarrow> exn + nat" 60 "''test''" 100
          "\<lparr>failure_threshold = 2, timeout = 60, name = ''test'', failure_count = 2,
            last_failure_time = Some 100, state = OPEN\<rparr>"
          clock "\<lparr>invocations = 2, events = [Invoked, Invoked], clock = 101\<rparr>"
          "invoke ((\<lambda>i. Inr 7) :: nat \<Rightarrow> exn + nat)"]
    circuit_breaker_state_machine
      [of 2 "(\<lambda>i. Inl (ValueError ''Fail'')) :: nat \<Rightarrow> exn + nat" 60 "''test''" 100
          "\<lparr>failure_threshold = 2, timeout = 60, name = ''test'', failure_count = 2,
            last_failure_time = Some 100, state = OPEN\<rparr>"
          clock "\<lparr>invocations = 2, events = [Invoked, Invoked], clock = 160\<rparr>"
          "invoke ((\<lambda>i. Inr 7) :: nat \<Rightarrow> exn + nat)"]
    circuit_breaker_state_machine
      [of 2 "(\<lambda>i. Inl (ValueError ''Fail'')) :: nat \<Rightarrow> exn + nat" 60 "''test''" 100
          "\<lparr>failure_threshold = 2, timeout = 60, name = ''test'', failure_count = 2,
            last_failure_time = Some 100, state = OPEN\<rparr>"
          clock "\<lparr>invocations = 2, events = [Invoked, Invoked], clock = 160\<rparr>"
          "invoke ((\<lambda>i. Inl (ValueError ''Fail'')) :: nat \<Rightarrow> exn + nat)"]
  by (simp add: cb_inv_def invoke_def Let_def world0_def CircuitBreaker_init_def call_def
        should_attempt_reset_def eval_nat_numeral)

lemma failures_mono: "m \<le> n \<Longrightarrow> failures f m \<le> failures f n"
  by (induction n) (auto simp: failures_Suc le_Suc_eq)

text \<open>
  Claim C10. A call that succeeds while the breaker is closed leaves the breaker as it was,
  \<open>failure_count\<close> and \<open>last_failure_time\<close> included. A call changes the counter to
  something other than itself or itself plus one only as a successful half-open trial, which
  sets it to 0. So, from a new breaker, successes between the failures do not postpone the
  opening: while fewer than \<open>failure_threshold\<close> of the calls have failed the breaker is
  closed and counts exactly the failures, and the call that brings the failures to the
  threshold opens it.
\<close>

theorem closed_success_keeps_failure_count:
  fixes func :: "('w, 'a) awaitable" and f :: "nat \<Rightarrow> exn + 'b"
  shows
    "(state cb = CLOSED \<and> func w = (Inr v, w') \<longrightarrow> call time func (cb, w) = (Inr v, cb, w'))
   \<and> (call time func (cb, w) = (r, cb', w'') \<and>
        failure_count cb' \<noteq> failure_count cb \<and> failure_count cb' \<noteq> failure_count cb + 1 \<longrightarrow>
        (state cb = HALF_OPEN \<or> (state cb = OPEN \<and> should_attempt_reset (time w) cb)) \<and>
        \<not> isl r \<and> failure_count cb' = 0 \<and> state cb' = CLOSED)
   \<and> (int (failures f n) = threshold - 1 \<and> isl (f n) \<longrightarrow>
        (\<forall>m \<le> n. let (cbm, wm) = calls clock (invoke f) m
                                   (CircuitBreaker_init threshold tmo nm, world0 t0)
                  in state cbm = CLOSED \<and> failure_count cbm = int (failures f m) \<and>
                     invocations wm = m) \<and>
        (let (cb1, w1) = calls clock (invoke f) (Suc n)
                           (CircuitBreaker_init threshold tmo nm, world0 t0)
         in state cb1 = OPEN \<and> failure_count cb1 = threshold \<and> invocations w1 = Suc n))"
proof (intro conjI impI allI)
  assume "state cb = CLOSED \<and> func w = (Inr v, w')"
  then show "call time func (cb, w) = (Inr v, cb, w')" by (simp add: call_def)
next
  assume a: "call time func (cb, w) = (r, cb', w'') \<and>
        failure_count cb' \<noteq> failure_count cb \<and> failure_count cb' \<noteq> failure_count cb + 1"
  obtain r0 w0 where fw: "func w = (r0, w0)" by (cases "func w")
  from a fw have
    "(state cb = HALF_OPEN \<or> (state cb = OPEN \<and> should_attempt_reset (time w) cb)) \<and>
        \<not> isl r \<and> failure_count cb' = 0 \<and> state cb' = CLOSED"
    by (cases r0) (auto simp: call_def Let_def split: if_splits)
  then show "state cb = HALF_OPEN \<or> (state cb = OPEN \<and> should_attempt_reset (time w) cb)"
    and "\<not> isl r" and "failure_count cb' = 0" and "state cb' = CLOSED" by blast+
next
  fix m
  assume a: "int (failures f n) = threshold - 1 \<and> isl (f n)" and m: "m \<le> n"
  from failures_mono [OF m, of f] a have "int (failures f m) < threshold" by linarith
  from calls_closed_run [OF this, of tmo nm t0]
  show "let (cbm, wm) = calls clock (invoke f) m (CircuitBreaker_init threshold tmo nm, world0 t0)
        in state cbm = CLOSED \<and> failure_count cbm = int (failures f m) \<and> invocations wm = m"
    by (simp add: CircuitBreaker_init_def)
next
  assume a: "int (failures f n) = threshold - 1 \<and> isl (f n)"
  then have 1: "int (failures f n) = threshold - 1" and 2: "isl (f n)" by simp_all
  from calls_opening_failure [OF 1 2, of tmo nm t0]
  show "let (cb1, w1) = calls clock (invoke f) (Suc n) (CircuitBreaker_init threshold tmo nm, world0 t0)
        in state cb1 = OPEN \<and> failure_count cb1 = threshold \<and> invocations w1 = Suc n"
    by (simp add: CircuitBreaker_init_def)
qed


text \<open>
  Threshold 3 and the outcomes success, failure, success, failure, failure: closed with
  count 2 after four calls, open after the fifth.
\<close>

theorem closed_success_keeps_failure_count_witness:
  "(let f = (\<lambda>i. if i \<in> {1, 3, 4} then Inl (ValueError ''Fail'') else Inr 7) :: nat \<Rightarrow> exn + nat;
        cb = \<lparr>failure_threshold = 3, timeout = 60, name = ''mixed_test'', failure_count = 1,
              last_failure_time = Some 5, state = CLOSED\<rparr>;
        opened = \<lparr>failure_threshold = 3, timeout = 60, name = ''mixed_test'', failure_count = 3,
              last_failure_time = Some 5, state = OPEN\<rparr>;
        w = \<lparr>invocations = 2, events = [Invoked, Invoked], clock = 9\<rparr>;
        w' = \<lparr>invocations = 3, events = [Invoked, Invoked, Invoked], clock = 9\<rparr>;
        late = \<lparr>invocations = 5, events = [], clock = 100\<rparr>;
        late' = \<lparr>invocations = 6, events = [Invoked], clock = 100\<rparr>
    in state cb = CLOSED \<and> invoke f w = (Inr 7, w') \<and> call clock (invoke f) (cb, w) = (Inr 7, cb, w')
     \<and> call clock (invoke f) (opened, late) =
           (Inr 7, opened\<lparr>state := CLOSED, failure_count := 0, last_failure_time := None\<rparr>, late')
     \<and> (0::int) \<noteq> 3 \<and> (0::int) \<noteq> 3 + 1 \<and> should_attempt_reset (clock late) opened
     \<and> int (failures f 4) = 3 - 1 \<and> isl (f 4)
     \<and> fst (calls clock (invoke f) 4 (CircuitBreaker_init 3 60 ''mixed_test'', world0 5)) =
           \<lparr>failure_threshold = 3, timeout = 60, name = ''mixed_test'', failure_count = 2,
              last_failure_time = Some 5, state = CLOSED\<rparr>
     \<and> fst (calls clock (invoke f) (Suc 4) (CircuitBreaker_init 3 60 ''mixed_test'', world0 5)) = opened)"
  using closed_success_keeps_failure_count
      [of "\<lparr>failure_threshold = 3, timeout = 60, name = ''mixed_test'', failure_count = 1,
              last_failure_time = Some 5, state = CLOSED\<rparr>"
          "invoke ((\<lambda>i. if i \<in> {1, 3, 4} then Inl (ValueError ''Fail'') else Inr 7) :: nat \<Rightarrow> exn + nat)"
          "\<lparr>invocations = 2, events = [Invoked, Invoked], clock = 9\<rparr>" 7
          "\<lparr>invocations = 3, events = [Invoked, Invoked, Invoked], clock = 9\<rparr>" clock
          "Inr 7"
          "\<lparr>failure_threshold = 3, timeout = 60, name = ''mixed_test'', failure_count = 1,
              last_failure_time = Some 5, state = CLOSED\<rparr>"
          "\<lparr>invocations = 3, events = [Invoked, Invoked, Invoked], clock = 9\<rparr>"
          "(\<lambda>i. if i \<in> {1, 3, 4} then Inl (ValueError ''Fail'') else Inr 7) :: nat \<Rightarrow> exn + nat"
          4 3 60 "''mixed_test''" 5]
    closed_success_keeps_failure_count
      [of "\<lparr>failure_threshold = 3, timeout = 60, name = ''mixed_test'', failure_count = 3,
              last_failure_time = Some 5, state = OPEN\<rparr>"
          "invoke ((\<lambda>i. if i \<in> {1, 3, 4} then Inl (ValueError ''Fail'') else Inr 7) :: nat \<Rightarrow> exn + nat)"
          "\<lparr>invocations = 5, events = [], clock = 100\<rparr>" 7
          "\<lparr>invocations = 6, events = [Invoked], clock = 100\<rparr>" clock
          "Inr 7"
          "\<lparr>failure_threshold = 3, timeout = 60, name = ''mixed_test'', failure_count = 0,
              last_failure_time = None, state = CLOSED\<rparr>"
          "\<lparr>invocations = 6, events = [Invoked], clock = 100\<rparr>"
          "(\<lambda>i. if i \<in> {1, 3, 4} then Inl (ValueError ''Fail'') else Inr 7) :: nat \<Rightarrow> exn + nat"
          4 3 60 "''mixed_test''" 5]
  by (simp add: invoke_def Let_def world0_def CircuitBreaker_init_def call_def failures_def
        should_attempt_reset_def eval_nat_numeral upt_rec)

text \<open>
  Claim C4. A function that fails on its first \<open>k\<close> attempts, \<open>k < max_retries + 1\<close>, and
  then succeeds is invoked exactly \<open>k + 1\<close> times and its value is returned; the world
  records an invocation first and a sleep after each failed attempt, and the sleeps are
  \<open>initial_delay * backoff_factor ^ i\<close> for \<open>i = 0, \<dots>, k - 1\<close>. A function that fails all
  \<open>max_retries + 1\<close> attempts has the exception of its last attempt raised, unchanged.
\<close>

theorem retry_with_backoff_attempts:
  fixes f :: "nat \<Rightarrow> exn + 'a"
  assumes "\<forall>i<k. isl (f i)"
  shows
    "(int k < max_retries + 1 \<and> f k = Inr v \<longrightarrow>
        (let (r, w) = retry_with_backoff asleep (invoke f) max_retries initial_delay backoff_factor
                        (world0 t0)
         in r = Inr v \<and> invocations w = k + 1 \<and>
            events w = retry_events initial_delay backoff_factor k \<and>
            slept (events w) = backoff_delays initial_delay backoff_factor k))
   \<and> (int k = max_retries \<and> f k = Inl e \<longrightarrow>
        (let (r, w) = retry_with_backoff asleep (invoke f) max_retries initial_delay backoff_factor
                        (world0 t0)
         in r = Inl e \<and> invocations w = k + 1 \<and>
            events w = retry_events initial_delay backoff_factor k \<and>
            slept (events w) = backoff_delays initial_delay backoff_factor k))"
proof -
  have main: "fst R = f k \<and> invocations (snd R) = k + 1 \<and>
              events (snd R) = retry_events initial_delay backoff_factor k"
    if "int k < max_retries + 1" and "\<not> isl (f k) \<or> int k = max_retries"
      and R: "R = retry_with_backoff asleep (invoke f) max_retries initial_delay backoff_factor (world0 t0)"
    for R
  proof -
    have 1: "\<forall>i<k. isl (f (invocations (world0 t0) + i))" using assms by (simp add: world0_def)
    have 2: "1 + int k \<le> max_retries + 1" using that(1) by simp
    have 3: "\<not> isl (f (invocations (world0 t0) + k)) \<or> 1 + int k = max_retries + 1"
      using that(2) by (simp add: world0_def)
    from retry_loop_scripted [OF 1 2 3, of backoff_factor initial_delay None]
    show ?thesis unfolding R retry_with_backoff_def by (simp add: world0_def)
  qed
  show ?thesis
  proof (intro conjI impI)
    assume a: "int k < max_retries + 1 \<and> f k = Inr v"
    then show "let (r, w) = retry_with_backoff asleep (invoke f) max_retries initial_delay backoff_factor
                        (world0 t0)
         in r = Inr v \<and> invocations w = k + 1 \<and>
            events w = retry_events initial_delay backoff_factor k \<and>
            slept (events w) = backoff_delays initial_delay backoff_factor k"
      using main [OF _ _ refl] by (simp add: split_beta slept_retry_events)
  next
    assume a: "int k = max_retries \<and> f k = Inl e"
    then show "let (r, w) = retry_with_backoff asleep (invoke f) max_retries initial_delay backoff_factor
                        (world0 t0)
         in r = Inl e \<and> invocations w = k + 1 \<and>
            events w = retry_events initial_delay backoff_factor k \<and>
            slept (events w) = backoff_delays initial_delay backoff_factor k"
      using main [OF _ _ refl] by (simp add: split_beta slept_retry_events)
  qed
qed

text \<open>
  Two failures then a success with \<open>max_retries = 3\<close>, delay 1 and factor 2; and four
  failures with factor 3, as in the repository's tests.
\<close>

theorem retry_with_backoff_attempts_witness:
  "isl (failing_twice 0) \<and> isl (failing_twice 1) \<and> int 2 < 3 + 1 \<and> failing_twice 2 = Inr 7 \<and>
   (let (r, w) = retry_with_backoff asleep (invoke failing_twice) 3 1 2 (world0 0)
    in r = Inr 7 \<and> invocations w = 3 \<and>
       events w = [Invoked, Slept 1, Invoked, Slept 2, Invoked] \<and> slept (events w) = [1, 2]) \<and>
   isl (always_failing 0) \<and> isl (always_failing 1) \<and> isl (always_failing 2) \<and> int 3 = 3 \<and>
   always_failing 3 = Inl (Exception ''Service unavailable'') \<and>
   (let (r, w) = retry_with_backoff asleep (invoke always_failing) 3 1 3 (world0 0)
    in r = Inl (Exception ''Service unavailable'') \<and> invocations w = 4 \<and>
       slept (events w) = [1, 3, 9])"
  using retry_with_backoff_attempts [of 2 failing_twice 3 7 1 2 0 "Exception ''x''"]
    retry_with_backoff_attempts [of 3 always_failing 3 7 1 3 0 "Exception ''Service unavailable''"]
  by (simp add: failing_twice_def always_failing_def retry_events_def backoff_delays_def
        eval_nat_numeral upt_rec split_beta less_Suc_eq)

text \<open>
  Claim C3 says that every failed retry attempt is a breaker failure of its own. It is not:
  with \<open>max_retries = 3\<close> and a function that always raises, one decorated call makes four
  failed attempts and the counter of a new breaker goes from 0 to 1.
\<close>

theorem retry_attempts_are_not_breaker_failures:
  "failure_count (fst (snd (call_production_api clock asleep 3 1 (scripted always_failing) ([] :: nat list) []
       (CircuitBreaker_init 5 60 ''ai_career_service'', world0 0)))) = 1
   \<and> invocations (snd (snd (call_production_api clock asleep 3 1 (scripted always_failing) ([] :: nat list) []
       (CircuitBreaker_init 5 60 ''ai_career_service'', world0 0)))) = 4
   \<and> fst (call_production_api clock asleep 3 1 (scripted always_failing) ([] :: nat list) []
       (CircuitBreaker_init 5 60 ''ai_career_service'', world0 0)) =
       Inl (Exception ''Service unavailable'')"
  by (simp add: call_production_api_def with_circuit_breaker_def with_retry_def
        retry_with_backoff_def call_def scripted_def always_failing_def
        CircuitBreaker_init_def world0_def retry_loop.simps invoke_def asleep_def Let_def)

text \<open>
  A call of a function decorated with \<^verbatim>\<open>with_retry\<close> that passes a positional argument
  (a method's \<^verbatim>\<open>self\<close>, for one) raises \<^verbatim>\<open>TypeError\<close> without awaiting the function.
\<close>

lemma with_retry_positional_arguments:
  "args \<noteq> [] \<Longrightarrow>
   with_retry sleep max_retries initial_delay backoff_factor func args kwargs w =
     (Inl (TypeError ''retry_with_backoff() got multiple values for argument max_retries''), w)"
  by (simp add: with_retry_def)

text \<open>
  Claim C3, amended. The breaker sees one outcome per decorated call: when it lets the
  call through and the retried call raises, the same exception is raised and the counter
  increases by exactly 1. For a scripted function that fails all \<open>max_retries + 1\<close>
  attempts, the function is invoked \<open>max_retries + 1\<close> times and the counter increases by 1.
\<close>

theorem retry_inside_breaker_counts_one_failure:
  fixes raw :: "('p, 'w, 'a) pyfun" and f :: "nat \<Rightarrow> exn + 'b"
  shows
    "((state cb \<noteq> OPEN \<or> should_attempt_reset (time w) cb) \<and>
      fst (with_retry sleep max_retries delay 2 raw args kwargs w) = Inl e \<longrightarrow>
        fst (call_production_api time sleep max_retries delay raw args kwargs (cb, w)) = Inl e \<and>
        failure_count (fst (snd (call_production_api time sleep max_retries delay raw args kwargs (cb, w))))
          = failure_count cb + 1)
   \<and> ((state cb \<noteq> OPEN \<or> should_attempt_reset t0 cb) \<and>
      0 \<le> max_retries \<and> (\<forall>i \<le> nat max_retries. isl (f i)) \<longrightarrow>
        (let (r, cb', w') = call_production_api clock asleep max_retries delay (scripted f) ([] :: 'p list) []
                              (cb, world0 t0)
         in r = f (nat max_retries) \<and> invocations w' = nat max_retries + 1 \<and>
            failure_count cb' = failure_count cb + 1))"
proof (intro conjI impI)
  assume a: "(state cb \<noteq> OPEN \<or> should_attempt_reset (time w) cb) \<and>
      fst (with_retry sleep max_retries delay 2 raw args kwargs w) = Inl e"
  from call_failure_counts_once [of cb time w "with_retry sleep max_retries delay 2 raw args kwargs" e] a
  show "fst (call_production_api time sleep max_retries delay raw args kwargs (cb, w)) = Inl e"
    and "failure_count (fst (snd (call_production_api time sleep max_retries delay raw args kwargs (cb, w))))
          = failure_count cb + 1"
    by (simp_all add: call_production_api_def with_circuit_breaker_def)
next
  assume a: "(state cb \<noteq> OPEN \<or> should_attempt_reset t0 cb) \<and>
      0 \<le> max_retries \<and> (\<forall>i \<le> nat max_retries. isl (f i))"
  define k where "k = nat max_retries"
  define W where "W = with_retry asleep max_retries delay 2 (scripted f) ([] :: 'p list) [] (world0 t0)"
  have 1: "\<forall>i<k. isl (f (invocations (world0 t0) + i))" using a by (simp add: world0_def k_def)
  have 2: "1 + int k \<le> max_retries + 1" using a by (simp add: k_def)
  have 3: "\<not> isl (f (invocations (world0 t0) + k)) \<or> 1 + int k = max_retries + 1"
    using a by (simp add: k_def)
  from retry_loop_scripted [OF 1 2 3, of 2 delay None]
  have W: "fst W = f k" "invocations (snd W) = k + 1"
    by (simp_all add: W_def with_retry_def retry_with_backoff_def scripted_def world0_def)
  from a have "isl (f k)" by (simp add: k_def)
  then obtain e where e: "f k = Inl e" by (auto simp: isl_def)
  have open0: "state cb \<noteq> OPEN \<or> should_attempt_reset (clock (world0 t0)) cb"
    using a by (simp add: world0_def)
  have fe: "fst W = Inl e" using W e by simp
  have "fst (call clock (with_retry asleep max_retries delay 2 (scripted f) ([] :: 'p list) []) (cb, world0 t0)) = Inl e
      \<and> failure_count (fst (snd (call clock (with_retry asleep max_retries delay 2 (scripted f) ([] :: 'p list) [])
            (cb, world0 t0)))) = failure_count cb + 1
      \<and> snd (snd (call clock (with_retry asleep max_retries delay 2 (scripted f) ([] :: 'p list) [])
            (cb, world0 t0))) = snd W"
    unfolding W_def
    by (rule call_failure_counts_once [of cb clock "world0 t0"
          "with_retry asleep max_retries delay 2 (scripted f) ([] :: 'p list) []" e])
       (use open0 fe in \<open>simp_all add: W_def\<close>)
  with W e show "let (r, cb', w') = call_production_api clock asleep max_retries delay (scripted f) ([] :: 'p list) []
                              (cb, world0 t0)
        in r = f (nat max_retries) \<and> invocations w' = nat max_retries + 1 \<and>
           failure_count cb' = failure_count cb + 1"
    by (simp add: call_production_api_def with_circuit_breaker_def k_def split_beta)
qed

text \<open>The amended statement at \<open>max_retries = 3\<close> on a new breaker of threshold 5.\<close>

theorem retry_inside_breaker_counts_one_failure_witness:
  "state (CircuitBreaker_init 5 60 ''ai_career_service'') = CLOSED
   \<and> (0::int) \<le> 3 \<and> isl (always_failing 0) \<and> isl (always_failing 1)
   \<and> isl (always_failing 2) \<and> isl (always_failing 3)
   \<and> (let (r, cb', w') = call_production_api clock asleep 3 1 (scripted always_failing) ([] :: nat list) []
                           (CircuitBreaker_init 5 60 ''ai_career_service'', world0 0)
       in r = Inl (Exception ''Service unavailable'') \<and> invocations w' = 4 \<and> failure_count cb' = 1)"
  using retry_inside_breaker_counts_one_failure
      [of "CircuitBreaker_init 5 60 ''ai_career_service''" clock "world0 0" asleep 3 1
          "scripted always_failing" "[] :: nat list" "[]" "Exception ''Service unavailable''" 0 always_failing]
  by (simp add: always_failing_def CircuitBreaker_init_def)

section \<open>Verified properties: the domain logic\<close>

lemma submitted_count_Cons:
  "submitted_count (e # es) k =
     (if is_submitted e \<and> evaluator_relationship e = k then 1 else 0) + submitted_count es k"
  by (simp add: submitted_count_def is_submitted_def)

lemma map_of_count_evaluations:
  "map_of counts k = Some n \<Longrightarrow>
   map_of (count_evaluations evs counts) k = Some (n + submitted_count evs k)"
proof (induction evs arbitrary: counts n)
  case Nil
  then show ?case by (simp add: submitted_count_def)
next
  case (Cons e es)
  show ?case
  proof (cases "is_submitted e \<and> map_of counts (evaluator_relationship e) \<noteq> None")
    case False
    then have "count_evaluations (e # es) counts = count_evaluations es counts"
      by (auto split: option.splits)
    moreover from False Cons.prems have "\<not> (is_submitted e \<and> evaluator_relationship e = k)"
      by auto
    ultimately show ?thesis using Cons.IH [OF Cons.prems] by (simp add: submitted_count_Cons)
  next
    case True
    then obtain m where m: "map_of counts (evaluator_relationship e) = Some m" by auto
    let ?c = "AList.update (evaluator_relationship e) (m + 1) counts"
    from True m have step: "count_evaluations (e # es) counts = count_evaluations es ?c" by simp
    have "map_of ?c k = Some (if evaluator_relationship e = k then m + 1 else n)"
      using Cons.prems by (simp add: update_conv')
    from Cons.IH [OF this] m Cons.prems True show ?thesis
      unfolding step by (auto simp: submitted_count_Cons)
  qed
qed

lemma get_count_initial:
  assumes "k \<in> relationship_kinds"
  shows "get_count (count_evaluations evs initial_counts) k = submitted_count evs k"
proof -
  from assms have "map_of initial_counts k = Some 0"
    by (auto simp: relationship_kinds_def initial_counts_def)
  from map_of_count_evaluations [OF this] show ?thesis by (simp add: get_count_def)
qed

lemma sublist_in_right: "sublist x zs \<Longrightarrow> sublist x (ys @ zs)"
  by (simp add: sublist_append)

lemma sublist_in_left: "sublist x ys \<Longrightarrow> sublist x (ys @ zs)"
  by (simp add: sublist_append)

lemma sublist_join: "x \<in> set xs \<Longrightarrow> sublist x (join sep xs)"
proof (induction sep xs rule: join.induct)
  case (3 sep y z zs)
  show ?case
  proof (cases "x = y")
    case True
    then show ?thesis by simp
  next
    case False
    with 3 have "sublist x (join sep (z # zs))" by simp
    then have "sublist x (y @ sep @ join sep (z # zs))"
      by (intro sublist_in_right)
    then show ?thesis by simp
  qed
qed simp_all

lemma sublist_trans_join:
  assumes "sublist x y" and "y \<in> set xs"
  shows "sublist x (pre @ join sep xs)"
  using assms sublist_join [of y xs sep] sublist_in_right sublist_order.order_trans by blast

text \<open>
  Claim C6. The check counts, per relationship kind, only the evaluations whose status is
  \<open>submitted\<close>. It returns \<open>(True, None)\<close> exactly when there are at least 1 self, at least
  1 manager, at least \<open>min_peers\<close> peer and at least \<open>min_direct_reports\<close> direct-report
  submitted evaluations. Otherwise it returns \<open>(False, reason)\<close>, and the text of the reason
  contains the name of every category that is short.
\<close>

theorem cycle_completion_check:
  "(is_cycle_complete_for_user evs min_peers min_direct_reports = (True, None) \<longleftrightarrow>
      1 \<le> submitted_count evs ''self'' \<and>
      1 \<le> submitted_count evs ''manager'' \<and>
      min_peers \<le> submitted_count evs ''peer'' \<and>
      min_direct_reports \<le> submitted_count evs ''direct_report'')
   \<and> (is_cycle_complete_for_user evs min_peers min_direct_reports \<noteq> (True, None) \<longrightarrow>
        (\<exists>reason.
           is_cycle_complete_for_user evs min_peers min_direct_reports = (False, Some reason) \<and>
           (submitted_count evs ''self'' < 1 \<longrightarrow> sublist ''self-evaluation'' reason) \<and>
           (submitted_count evs ''manager'' < 1 \<longrightarrow> sublist ''manager evaluation'' reason) \<and>
           (submitted_count evs ''peer'' < min_peers \<longrightarrow>
              sublist ''peer evaluations'' reason) \<and>
           (submitted_count evs ''direct_report'' < min_direct_reports \<longrightarrow>
              sublist ''direct report evaluations'' reason)))"
proof -
  define counts where "counts = count_evaluations evs initial_counts"
  have c: "get_count counts ''self'' = submitted_count evs ''self''"
    "get_count counts ''manager'' = submitted_count evs ''manager''"
    "get_count counts ''peer'' = submitted_count evs ''peer''"
    "get_count counts ''direct_report'' = submitted_count evs ''direct_report''"
    unfolding counts_def by (rule get_count_initial, simp add: relationship_kinds_def)+
  define p1 where "p1 = (if submitted_count evs ''self'' < 1 then [''self-evaluation''] else [])"
  define p2 where "p2 = (if submitted_count evs ''manager'' < 1 then [''manager evaluation''] else [])"
  define l3 where "l3 = ''at least '' @ str_int min_peers @ '' peer evaluations (has '' @
                   str_int (submitted_count evs ''peer'') @ '')''"
  define l4 where "l4 = ''at least '' @ str_int min_direct_reports @
                   '' direct report evaluations (has '' @
                   str_int (submitted_count evs ''direct_report'') @ '')''"
  define p3 where "p3 = (if submitted_count evs ''peer'' < min_peers then [l3] else [])"
  define p4 where "p4 = (if submitted_count evs ''direct_report'' < min_direct_reports then [l4] else [])"
  define parts where "parts = p1 @ p2 @ p3 @ p4"
  have res: "is_cycle_complete_for_user evs min_peers min_direct_reports =
        (if parts \<noteq> [] then (False, Some (''Missing: '' @ join '', '' parts)) else (True, None))"
    unfolding is_cycle_complete_for_user_def counts_def [symmetric] Let_def c
      parts_def p1_def p2_def p3_def p4_def l3_def l4_def ..
  have empty: "parts = [] \<longleftrightarrow>
      1 \<le> submitted_count evs ''self'' \<and>
      1 \<le> submitted_count evs ''manager'' \<and>
      min_peers \<le> submitted_count evs ''peer'' \<and>
      min_direct_reports \<le> submitted_count evs ''direct_report''"
    by (auto simp: parts_def p1_def p2_def p3_def p4_def)
  have "sublist ''peer evaluations'' '' peer evaluations (has ''"
    using sublist_appendI [of "''peer evaluations''" "'' ''" "'' (has ''"] by simp
  then have s3: "sublist ''peer evaluations'' l3"
    unfolding l3_def by (intro sublist_in_right sublist_in_left)
  have "sublist ''direct report evaluations'' '' direct report evaluations (has ''"
    using sublist_appendI [of "''direct report evaluations''" "'' ''" "'' (has ''"] by simp
  then have s4: "sublist ''direct report evaluations'' l4"
    unfolding l4_def by (intro sublist_in_right sublist_in_left)
  have named: "sublist x (''Missing: '' @ join '', '' parts)" if "sublist x y" and "y \<in> set parts" for x y
    using that by (rule sublist_trans_join)
  have n1: "submitted_count evs ''self'' < 1 \<longrightarrow>
            sublist ''self-evaluation'' (''Missing: '' @ join '', '' parts)"
  proof
    assume "submitted_count evs ''self'' < 1"
    then have "''self-evaluation'' \<in> set parts" by (simp add: parts_def p1_def)
    then show "sublist ''self-evaluation'' (''Missing: '' @ join '', '' parts)"
      by (rule named [OF sublist_order.order_refl])
  qed
  have n2: "submitted_count evs ''manager'' < 1 \<longrightarrow>
            sublist ''manager evaluation'' (''Missing: '' @ join '', '' parts)"
  proof
    assume "submitted_count evs ''manager'' < 1"
    then have "''manager evaluation'' \<in> set parts" by (simp add: parts_def p2_def)
    then show "sublist ''manager evaluation'' (''Missing: '' @ join '', '' parts)"
      by (rule named [OF sublist_order.order_refl])
  qed
  have n3: "submitted_count evs ''peer'' < min_peers \<longrightarrow>
            sublist ''peer evaluations'' (''Missing: '' @ join '', '' parts)"
  proof
    assume "submitted_count evs ''peer'' < min_peers"
    then have "l3 \<in> set parts" by (simp add: parts_def p3_def)
    then show "sublist ''peer evaluations'' (''Missing: '' @ join '', '' parts)"
      by (rule named [OF s3])
  qed
  have n4: "submitted_count evs ''direct_report'' < min_direct_reports \<longrightarrow>
            sublist ''direct report evaluations'' (''Missing: '' @ join '', '' parts)"
  proof
    assume "submitted_count evs ''direct_report'' < min_direct_reports"
    then have "l4 \<in> set parts" by (simp add: parts_def p4_def)
    then show "sublist ''direct report evaluations'' (''Missing: '' @ join '', '' parts)"
      by (rule named [OF s4])
  qed
  show ?thesis
  proof (intro conjI impI)
    show "is_cycle_complete_for_user evs min_peers min_direct_reports = (True, None) \<longleftrightarrow>
      1 \<le> submitted_count evs ''self'' \<and>
      1 \<le> submitted_count evs ''manager'' \<and>
      min_peers \<le> submitted_count evs ''peer'' \<and>
      min_direct_reports \<le> submitted_count evs ''direct_report''"
      unfolding res empty [symmetric] by simp
  next
    assume "is_cycle_complete_for_user evs min_peers min_direct_reports \<noteq> (True, None)"
    then have "is_cycle_complete_for_user evs min_peers min_direct_reports =
                 (False, Some (''Missing: '' @ join '', '' parts))"
      unfolding res by (simp split: if_splits)
    with n1 n2 n3 n4 show "\<exists>reason.
           is_cycle_complete_for_user evs min_peers min_direct_reports = (False, Some reason) \<and>
           (submitted_count evs ''self'' < 1 \<longrightarrow> sublist ''self-evaluation'' reason) \<and>
           (submitted_count evs ''manager'' < 1 \<longrightarrow> sublist ''manager evaluation'' reason) \<and>
           (submitted_count evs ''peer'' < min_peers \<longrightarrow>
              sublist ''peer evaluations'' reason) \<and>
           (submitted_count evs ''direct_report'' < min_direct_reports \<longrightarrow>
              sublist ''direct report evaluations'' reason)"
      by blast
  qed
qed

text \<open>
  A self and one submitted peer evaluation, a pending peer evaluation that does not count,
  no manager evaluation; and the complete scenario.
\<close>

theorem cycle_completion_check_witness:
  "is_cycle_complete_for_user
      [make_eval_with_score ''self'' ''submitted'' 42 9,
       make_eval_with_score ''peer'' ''pending'' 42 7,
       make_eval_with_score ''peer'' ''submitted'' 42 7] 2 0 =
     (False, Some ''Missing: manager evaluation, at least 2 peer evaluations (has 1)'')
   \<and> submitted_count
      [make_eval_with_score ''self'' ''submitted'' 42 9,
       make_eval_with_score ''peer'' ''pending'' 42 7,
       make_eval_with_score ''peer'' ''submitted'' 42 7] ''peer'' = 1
   \<and> sublist ''manager evaluation''
        ''Missing: manager evaluation, at least 2 peer evaluations (has 1)''
   \<and> sublist ''peer evaluations''
        ''Missing: manager evaluation, at least 2 peer evaluations (has 1)''
   \<and> is_cycle_complete_for_user scenario_evaluations 2 0 = (True, None)
   \<and> submitted_count scenario_evaluations ''peer'' = 2"
  using cycle_completion_check
      [of "[make_eval_with_score ''self'' ''submitted'' 42 9,
            make_eval_with_score ''peer'' ''pending'' 42 7,
            make_eval_with_score ''peer'' ''submitted'' 42 7]" 2 0]
    cycle_completion_check [of scenario_evaluations 2 0]
  by (simp add: is_cycle_complete_for_user_def make_eval_with_score_def is_submitted_def
        initial_counts_def get_count_def str_int_def str_nat.simps submitted_count_def
        scenario_evaluations_def Let_def)

lemma append_score_Inr:
  assumes "append_score rel x d = Inr d'"
  shows "rel \<in> relationship_kinds"
    and "rel_list r d' = rel_list r d @ (if r = rel then [x] else [])"
    and "entry_total d' \<noteq> []"
proof -
  from assms consider
      (self) "rel = ''self''" "d' = d\<lparr>by_self := by_self d @ [x]\<rparr>"
    | (peer) "rel = ''peer''" "d' = d\<lparr>by_peer := by_peer d @ [x]\<rparr>"
    | (manager) "rel = ''manager''" "d' = d\<lparr>by_manager := by_manager d @ [x]\<rparr>"
    | (direct) "rel = ''direct_report''" "d' = d\<lparr>by_direct_report := by_direct_report d @ [x]\<rparr>"
    unfolding append_score_def by (auto split: if_splits)
  then have "rel \<in> relationship_kinds \<and>
     rel_list r d' = rel_list r d @ (if r = rel then [x] else []) \<and> entry_total d' \<noteq> []"
  proof cases
    case self
    then show ?thesis by (simp add: relationship_kinds_def rel_list_def entry_total_def)
  next
    case peer
    then show ?thesis by (simp add: relationship_kinds_def rel_list_def entry_total_def)
  next
    case manager
    then show ?thesis by (simp add: relationship_kinds_def rel_list_def entry_total_def)
  next
    case direct
    then show ?thesis by (simp add: relationship_kinds_def rel_list_def entry_total_def)
  qed
  then show "rel \<in> relationship_kinds"
    and "rel_list r d' = rel_list r d @ (if r = rel then [x] else [])"
    and "entry_total d' \<noteq> []" by simp_all
qed

lemma append_score_total:
  "rel \<in> relationship_kinds \<Longrightarrow> \<exists>d'. append_score rel x d = Inr d'"
  by (auto simp: append_score_def relationship_kinds_def)

lemma rel_list_empty [simp]: "rel_list r empty_rel_scores = []"
  by (simp add: rel_list_def empty_rel_scores_def)


lemma add_score_Inr:
  assumes "add_score rel c m = Inr m'"
  shows "rel \<in> relationship_kinds"
    and "entry_scores m' sid r =
           entry_scores m sid r @ (if sid = skill_id c \<and> r = rel then [score c] else [])"
    and "entries_ok m \<Longrightarrow> entries_ok m'"
proof -
  define d where "d = (case map_of m (skill_id c) of None \<Rightarrow> empty_rel_scores | Some d \<Rightarrow> d)"
  from assms obtain d' where d': "append_score rel (score c) d = Inr d'"
    and m': "m' = AList.update (skill_id c) d' m"
    by (auto simp: add_score_def d_def Let_def split: sum.splits)
  note a = append_score_Inr [OF d']
  show "rel \<in> relationship_kinds" by (rule a(1))
  have old: "entry_scores m (skill_id c) r = rel_list r d"
    by (simp add: entry_scores_def d_def split: option.splits)
  show "entry_scores m' sid r =
           entry_scores m sid r @ (if sid = skill_id c \<and> r = rel then [score c] else [])"
  proof (cases "sid = skill_id c")
    case True
    then have "entry_scores m' sid r = rel_list r d'"
      by (simp add: entry_scores_def m' update_conv')
    with True old a(2) [of r] show ?thesis by simp
  next
    case False
    then show ?thesis by (simp add: entry_scores_def m' update_conv')
  qed
  show "entries_ok m'" if "entries_ok m"
    using that a(3) by (auto simp: entries_ok_def m' update_conv' distinct_update)
qed

lemma add_score_total:
  assumes "rel \<in> relationship_kinds"
  shows "\<exists>m'. add_score rel c m = Inr m'"
proof -
  define d where "d = (case map_of m (skill_id c) of None \<Rightarrow> empty_rel_scores | Some d \<Rightarrow> d)"
  from append_score_total [OF assms, of "score c" d]
  obtain d' where "append_score rel (score c) d = Inr d'" by blast
  then show ?thesis by (simp add: add_score_def d_def [symmetric])
qed

lemma add_scores_Inr:
  assumes "add_scores rel cs m = Inr m'"
  shows "entry_scores m' sid r =
           entry_scores m sid r @
             (if r = rel then map score (filter (\<lambda>c. skill_id c = sid) cs) else [])"
    and "entries_ok m \<Longrightarrow> entries_ok m'"
  using assms
proof (induction cs arbitrary: m)
  case Nil
  {
    case 1 then show ?case by simp
  next
    case 2 then show ?case by simp
  }
next
  case (Cons c cs)
  {
    case 1
    then obtain m1 where m1: "add_score rel c m = Inr m1" and rest: "add_scores rel cs m1 = Inr m'"
      by (auto split: sum.splits)
    from Cons.IH(1) [OF rest] add_score_Inr(2) [OF m1, of sid r] show ?case by auto
  next
    case 2
    then obtain m1 where m1: "add_score rel c m = Inr m1" and rest: "add_scores rel cs m1 = Inr m'"
      by (auto split: sum.splits)
    from Cons.IH(2) [OF _ rest] add_score_Inr(3) [OF m1] 2 show ?case by auto
  }
qed

lemma add_scores_total:
  "rel \<in> relationship_kinds \<Longrightarrow> \<exists>m'. add_scores rel cs m = Inr m'"
proof (induction cs arbitrary: m)
  case (Cons c cs)
  from add_score_total [OF Cons.prems] obtain m1 where "add_score rel c m = Inr m1" by blast
  with Cons.IH [OF Cons.prems, of m1] show ?case by simp
qed simp

lemma scores_of_Cons:
  "scores_of (e # es) r sid =
     (if is_submitted e \<and> evaluator_relationship e = r
      then map score (filter (\<lambda>c. skill_id c = sid) (competency_scores e)) else []) @
     scores_of es r sid"
  by (simp add: scores_of_def is_submitted_def)

lemma collect_scores_Inr:
  assumes "collect_scores evs m = Inr m'"
  shows "entry_scores m' sid r = entry_scores m sid r @ scores_of evs r sid"
    and "entries_ok m \<Longrightarrow> entries_ok m'"
  using assms
proof (induction evs arbitrary: m)
  case Nil
  {
    case 1 then show ?case by (simp add: scores_of_def)
  next
    case 2 then show ?case by simp
  }
next
  case (Cons e es)
  {
    case 1
    show ?case
    proof (cases "is_submitted e")
      case False
      with 1 Cons.IH(1) [of m] show ?thesis by (simp add: scores_of_Cons)
    next
      case True
      with 1 obtain m1 where m1: "add_scores (evaluator_relationship e) (competency_scores e) m = Inr m1"
        and rest: "collect_scores es m1 = Inr m'"
        by (auto split: sum.splits)
      from Cons.IH(1) [OF rest] add_scores_Inr(1) [OF m1, of sid r] True
      show ?thesis by (auto simp: scores_of_Cons)
    qed
  next
    case 2
    show ?case
    proof (cases "is_submitted e")
      case False
      with 2 Cons.IH(2) [of m] show ?thesis by simp
    next
      case True
      with 2 obtain m1 where m1: "add_scores (evaluator_relationship e) (competency_scores e) m = Inr m1"
        and rest: "collect_scores es m1 = Inr m'"
        by (auto split: sum.splits)
      from Cons.IH(2) [OF _ rest] add_scores_Inr(2) [OF m1] 2 show ?thesis by auto
    qed
  }
qed

lemma collect_scores_total:
  "\<forall>e \<in> set evs. is_submitted e \<longrightarrow> evaluator_relationship e \<in> relationship_kinds \<Longrightarrow>
   \<exists>m'. collect_scores evs m = Inr m'"
proof (induction evs arbitrary: m)
  case (Cons e es)
  show ?case
  proof (cases "is_submitted e")
    case False
    with Cons show ?thesis by simp
  next
    case True
    with Cons.prems have "evaluator_relationship e \<in> relationship_kinds" by simp
    from add_scores_total [OF this] obtain m1 where
      "add_scores (evaluator_relationship e) (competency_scores e) m = Inr m1" by blast
    with True Cons.IH [of m1] Cons.prems show ?thesis by simp
  qed
qed simp


lemma rel_list_keys:
  "rel_list ''self'' d = by_self d" "rel_list ''peer'' d = by_peer d"
  "rel_list ''manager'' d = by_manager d" "rel_list ''direct_report'' d = by_direct_report d"
  by (simp_all add: rel_list_def)

lemma map_fst_aggregate: "map fst (map (\<lambda>(sid, d). (sid, f d)) m) = map fst m"
  by (induction m) auto

lemma collected_entries:
  assumes "collect_scores evs [] = Inr m"
  shows "distinct (map fst m)"
    and "map_of m sid = None \<Longrightarrow> all_scores_of evs sid = []"
    and "map_of m sid = Some d \<Longrightarrow>
           by_self d = scores_of evs ''self'' sid \<and>
           by_peer d = scores_of evs ''peer'' sid \<and>
           by_manager d = scores_of evs ''manager'' sid \<and>
           by_direct_report d = scores_of evs ''direct_report'' sid \<and>
           all_scores_of evs sid \<noteq> []"
proof -
  have ok0: "entries_ok []" by (simp add: entries_ok_def)
  from collect_scores_Inr(2) [OF assms ok0] have ok: "entries_ok m" .
  then show "distinct (map fst m)" by (simp add: entries_ok_def)
  have es: "entry_scores m sid r = scores_of evs r sid" for r
    using collect_scores_Inr(1) [OF assms, of sid r] by (simp add: entry_scores_def)
  show "all_scores_of evs sid = []" if "map_of m sid = None"
    using that es [symmetric] by (simp add: all_scores_of_def entry_scores_def)
  show "by_self d = scores_of evs ''self'' sid \<and>
           by_peer d = scores_of evs ''peer'' sid \<and>
           by_manager d = scores_of evs ''manager'' sid \<and>
           by_direct_report d = scores_of evs ''direct_report'' sid \<and>
           all_scores_of evs sid \<noteq> []" if d: "map_of m sid = Some d"
  proof -
    from d have "rel_list r d = scores_of evs r sid" for r
      using es [of r] by (simp add: entry_scores_def)
    from this [of "''self''"] this [of "''peer''"] this [of "''manager''"] this [of "''direct_report''"]
    have l: "by_self d = scores_of evs ''self'' sid"
      "by_peer d = scores_of evs ''peer'' sid"
      "by_manager d = scores_of evs ''manager'' sid"
      "by_direct_report d = scores_of evs ''direct_report'' sid"
      by (simp_all only: rel_list_keys)
    from ok d have "entry_total d \<noteq> []" by (auto simp: entries_ok_def)
    then have "all_scores_of evs sid \<noteq> []"
      unfolding entry_total_def all_scores_of_def l .
    with l show ?thesis by simp
  qed
qed

text \<open>
  For evaluations whose submitted members have one of the four relationship kinds, the
  aggregation returns one entry per skill that has a score from a submitted evaluation, and
  none for other skills. In the entry of a skill, each per-kind average is the sum of the
  scores of that kind divided by their number (absent when the kind has no score), the
  counts are the numbers of scores per kind, \<open>overall_avg\<close> is the sum of all scores of the
  skill divided by their number, and the confidence is 0.9, 0.7, 0.5 or 0.0 as the number
  of scores is at least 5, at least 3, at least 1 or 0. Scores are reals.
\<close>

lemma score_aggregation:
  assumes "\<forall>e \<in> set evs. is_submitted e \<longrightarrow> evaluator_relationship e \<in> relationship_kinds"
  shows "\<exists>aggregated.
           aggregate_competency_scores evs = Inr aggregated \<and>
           distinct (map fst aggregated) \<and>
       (\<forall>sid. case map_of aggregated sid of
                None \<Rightarrow> all_scores_of evs sid = []
              | Some stats \<Rightarrow>
                  all_scores_of evs sid \<noteq> [] \<and>
                  self_avg stats =
                    (if scores_of evs ''self'' sid = [] then None
                     else Some (sum_list (scores_of evs ''self'' sid) /
                                real (length (scores_of evs ''self'' sid)))) \<and>
                  peer_avg stats =
                    (if scores_of evs ''peer'' sid = [] then None
                     else Some (sum_list (scores_of evs ''peer'' sid) /
                                real (length (scores_of evs ''peer'' sid)))) \<and>
                  manager_avg stats =
                    (if scores_of evs ''manager'' sid = [] then None
                     else Some (sum_list (scores_of evs ''manager'' sid) /
                                real (length (scores_of evs ''manager'' sid)))) \<and>
                  direct_report_avg stats =
                    (if scores_of evs ''direct_report'' sid = [] then None
                     else Some (sum_list (scores_of evs ''direct_report'' sid) /
                                real (length (scores_of evs ''direct_report'' sid)))) \<and>
                  n_self stats = length (scores_of evs ''self'' sid) \<and>
                  n_peer stats = length (scores_of evs ''peer'' sid) \<and>
                  n_manager stats = length (scores_of evs ''manager'' sid) \<and>
                  n_direct_report stats = length (scores_of evs ''direct_report'' sid) \<and>
                  overall_avg stats =
                    sum_list (all_scores_of evs sid) /
                    real (length (all_scores_of evs sid)) \<and>
                  confidence stats =
                    (if length (all_scores_of evs sid) \<ge> 5 then 0.9
                     else if length (all_scores_of evs sid) \<ge> 3 then 0.7
                     else if length (all_scores_of evs sid) \<ge> 1 then 0.5
                     else 0.0))"
proof -
  from collect_scores_total [OF assms, of "[]"] obtain m where m: "collect_scores evs [] = Inr m"
    by blast
  define aggregated where "aggregated = map (\<lambda>(sid, d). (sid, aggregate_skill d)) m"
  have agg: "aggregate_competency_scores evs = Inr aggregated"
    by (simp add: aggregate_competency_scores_def m aggregated_def)
  have dist: "distinct (map fst aggregated)"
    unfolding aggregated_def map_fst_aggregate by (rule collected_entries(1) [OF m])
  have lookup: "map_of aggregated sid = map_option aggregate_skill (map_of m sid)" for sid
    by (simp add: aggregated_def map_of_map)
  have each: "case map_of aggregated sid of
                None \<Rightarrow> all_scores_of evs sid = []
              | Some stats \<Rightarrow>
                  all_scores_of evs sid \<noteq> [] \<and>
                  self_avg stats =
                    (if scores_of evs ''self'' sid = [] then None
                     else Some (sum_list (scores_of evs ''self'' sid) /
                                real (length (scores_of evs ''self'' sid)))) \<and>
                  peer_avg stats =
                    (if scores_of evs ''peer'' sid = [] then None
                     else Some (sum_list (scores_of evs ''peer'' sid) /
                                real (length (scores_of evs ''peer'' sid)))) \<and>
                  manager_avg stats =
                    (if scores_of evs ''manager'' sid = [] then None
                     else Some (sum_list (scores_of evs ''manager'' sid) /
                                real (length (scores_of evs ''manager'' sid)))) \<and>
                  direct_report_avg stats =
                    (if scores_of evs ''direct_report'' sid = [] then None
                     else Some (sum_list (scores_of evs ''direct_report'' sid) /
                                real (length (scores_of evs ''direct_report'' sid)))) \<and>
                  n_self stats = length (scores_of evs ''self'' sid) \<and>
                  n_peer stats = length (scores_of evs ''peer'' sid) \<and>
                  n_manager stats = length (scores_of evs ''manager'' sid) \<and>
                  n_direct_report stats = length (scores_of evs ''direct_report'' sid) \<and>
                  overall_avg stats =
                    sum_list (all_scores_of evs sid) /
                    real (length (all_scores_of evs sid)) \<and>
                  confidence stats =
                    (if length (all_scores_of evs sid) \<ge> 5 then 0.9
                     else if length (all_scores_of evs sid) \<ge> 3 then 0.7
                     else if length (all_scores_of evs sid) \<ge> 1 then 0.5
                     else 0.0)" for sid
  proof (cases "map_of m sid")
    case None
    with collected_entries(2) [OF m None] show ?thesis by (simp add: lookup)
  next
    case (Some d)
    from collected_entries(3) [OF m Some]
    have l: "by_self d = scores_of evs ''self'' sid"
      "by_peer d = scores_of evs ''peer'' sid"
      "by_manager d = scores_of evs ''manager'' sid"
      "by_direct_report d = scores_of evs ''direct_report'' sid"
      and ne: "all_scores_of evs sid \<noteq> []" by simp_all
    have tot: "scores_of evs ''self'' sid @ scores_of evs ''peer'' sid @
          scores_of evs ''manager'' sid @ scores_of evs ''direct_report'' sid =
          all_scores_of evs sid" by (simp add: all_scores_of_def)
    have "map_of aggregated sid = Some (aggregate_skill d)" by (simp add: lookup Some)
    moreover have "overall_avg (aggregate_skill d) =
        sum_list (all_scores_of evs sid) / real (length (all_scores_of evs sid))"
      "self_avg (aggregate_skill d) =
         (if scores_of evs ''self'' sid = [] then None
          else Some (sum_list (scores_of evs ''self'' sid) /
                     real (length (scores_of evs ''self'' sid))))"
      "peer_avg (aggregate_skill d) =
         (if scores_of evs ''peer'' sid = [] then None
          else Some (sum_list (scores_of evs ''peer'' sid) /
                     real (length (scores_of evs ''peer'' sid))))"
      "manager_avg (aggregate_skill d) =
         (if scores_of evs ''manager'' sid = [] then None
          else Some (sum_list (scores_of evs ''manager'' sid) /
                     real (length (scores_of evs ''manager'' sid))))"
      "direct_report_avg (aggregate_skill d) =
         (if scores_of evs ''direct_report'' sid = [] then None
          else Some (sum_list (scores_of evs ''direct_report'' sid) /
                     real (length (scores_of evs ''direct_report'' sid))))"
      "n_self (aggregate_skill d) = length (scores_of evs ''self'' sid)"
      "n_peer (aggregate_skill d) = length (scores_of evs ''peer'' sid)"
      "n_manager (aggregate_skill d) = length (scores_of evs ''manager'' sid)"
      "n_direct_report (aggregate_skill d) = length (scores_of evs ''direct_report'' sid)"
      "confidence (aggregate_skill d) =
         (if length (all_scores_of evs sid) \<ge> 5 then 0.9
          else if length (all_scores_of evs sid) \<ge> 3 then 0.7
          else if length (all_scores_of evs sid) \<ge> 1 then 0.5
          else 0.0)"
      unfolding aggregate_skill_def Let_def l tot using ne by simp_all
    ultimately show ?thesis using ne by simp
  qed
  from agg dist each show ?thesis by blast
qed

text \<open>
  The scenario of the tests, self 9.0, manager 8.0 and peers 7.0 and 7.0, and a set with
  two skills, two different peer scores for the first one, and a pending evaluation of an
  unknown kind that is skipped.
\<close>

lemma score_aggregation_scenario:
  "aggregate_competency_scores scenario_evaluations =
           Inr [(42, \<lparr>overall_avg = 7.75, self_avg = Some 9.0, peer_avg = Some 7.0,
                      manager_avg = Some 8.0, direct_report_avg = None,
                      n_self = 1, n_peer = 2, n_manager = 1, n_direct_report = 0,
                      confidence = 0.7,
                      raw_stats =
                        \<lparr>raw_self_scores = [9.0], raw_peer_scores = [7.0, 7.0],
                         raw_manager_scores = [8.0], raw_direct_report_scores = [],
                         raw_self_avg = Some 9.0, raw_peer_avg = Some 7.0,
                         raw_manager_avg = Some 8.0, raw_direct_report_avg = None,
                         raw_n_self = 1, raw_n_peer = 2, raw_n_manager = 1,
                         raw_n_direct_report = 0\<rparr>\<rparr>)]"
  by (simp add: aggregate_competency_scores_def scenario_evaluations_def make_eval_with_score_def
        is_submitted_def add_score_def append_score_def empty_rel_scores_def Let_def
        aggregate_skill_def)

lemma score_aggregation_example:
  "map (\<lambda>(sid, stats). (sid, self_avg stats, peer_avg stats, overall_avg stats, confidence stats))
     (projr (aggregate_competency_scores
        [make_eval_with_score ''self'' ''submitted'' 1 8.0,
         make_eval_with_score ''mentor'' ''pending'' 1 3.0,
         make_eval_with_score ''peer'' ''submitted'' 2 6.0,
         make_eval_with_score ''peer'' ''submitted'' 1 5.0,
         make_eval_with_score ''peer'' ''submitted'' 1 9.0])) =
     [(1, Some 8.0, Some 7.0, 22 / 3, 0.7), (2, None, Some 6.0, 6.0, 0.5)]"
  by (simp add: aggregate_competency_scores_def make_eval_with_score_def
        is_submitted_def add_score_def append_score_def empty_rel_scores_def Let_def
        aggregate_skill_def)

text \<open>
  A submitted evaluation of any other relationship that carries a score makes the
  aggregation raise \<^verbatim>\<open>KeyError\<close>, whatever else the set holds.
\<close>

lemma append_score_Inl:
  "append_score rel x d = Inl e \<longleftrightarrow> rel \<notin> relationship_kinds \<and> e = KeyError rel"
  by (auto simp: append_score_def relationship_kinds_def)

lemma add_scores_Inl:
  "add_scores rel cs m = Inl e \<Longrightarrow> rel \<notin> relationship_kinds \<and> e = KeyError rel"
proof (induction cs arbitrary: m)
  case Nil
  then show ?case by simp
next
  case (Cons c cs)
  show ?case
  proof (cases "add_score rel c m")
    case (Inl e')
    with Cons.prems have "e' = e" by simp
    with Inl show ?thesis
      by (auto simp: add_score_def Let_def append_score_Inl split: sum.splits)
  next
    case (Inr m')
    with Cons.prems have "add_scores rel cs m' = Inl e" by simp
    then show ?thesis by (rule Cons.IH)
  qed
qed

lemma add_scores_KeyError:
  assumes "rel \<notin> relationship_kinds" and "cs \<noteq> []"
  shows "add_scores rel cs m = Inl (KeyError rel)"
proof -
  from assms(2) obtain c rest where cs: "cs = c # rest" by (cases cs) auto
  have "append_score rel x d = Inl (KeyError rel)" for x d
    using assms(1) by (simp add: append_score_Inl)
  then show ?thesis by (simp add: cs add_score_def Let_def)
qed

lemma aggregate_competency_scores_KeyError:
  assumes "\<exists>e \<in> set evs. is_submitted e \<and> evaluator_relationship e \<notin> relationship_kinds \<and>
             competency_scores e \<noteq> []"
  shows "\<exists>rel. rel \<notin> relationship_kinds \<and> aggregate_competency_scores evs = Inl (KeyError rel)"
proof -
  have "\<exists>rel. rel \<notin> relationship_kinds \<and> collect_scores evs m = Inl (KeyError rel)" for m
    using assms
  proof (induction evs arbitrary: m)
    case Nil
    then show ?case by simp
  next
    case (Cons e rest)
    show ?case
    proof (cases "is_submitted e")
      case False
      with Cons.prems have "\<exists>e \<in> set rest. is_submitted e \<and>
          evaluator_relationship e \<notin> relationship_kinds \<and> competency_scores e \<noteq> []" by auto
      from Cons.IH [OF this, of m] False show ?thesis by simp
    next
      case True
      show ?thesis
      proof (cases "add_scores (evaluator_relationship e) (competency_scores e) m")
        case (Inl x)
        from add_scores_Inl [OF Inl] Inl True show ?thesis by auto
      next
        case (Inr m')
        have "\<not> (evaluator_relationship e \<notin> relationship_kinds \<and> competency_scores e \<noteq> [])"
          using add_scores_KeyError [of "evaluator_relationship e" "competency_scores e" m] Inr
          by auto
        with Cons.prems have "\<exists>e \<in> set rest. is_submitted e \<and>
          evaluator_relationship e \<notin> relationship_kinds \<and> competency_scores e \<noteq> []" by auto
        from Cons.IH [OF this, of m'] True Inr show ?thesis by simp
      qed
    qed
  qed
  from this [of "[]"] show ?thesis by (auto simp: aggregate_competency_scores_def)
qed

text \<open>
  Claim C7. The per-kind averages, the overall average and the confidence are what the
  claim says for every set whose submitted evaluations have one of the four relationship
  kinds (\<open>score_aggregation\<close>), but not for every set of submitted evaluations: the
  relationship is a free string, and for a self-evaluation and a submitted evaluation of a
  mentor, each with one score for skill 42, the aggregation raises \<^verbatim>\<open>KeyError\<close> instead of
  returning the averages of the self-evaluation. The completeness check on the same set
  skips the unknown kind, as its guard \<^verbatim>\<open>if rel in counts\<close> makes it.
\<close>

theorem aggregate_competency_scores_unknown_relationship:
  "aggregate_competency_scores
     [make_eval_with_score ''self'' ''submitted'' 42 9.0,
      make_eval_with_score ''mentor'' ''submitted'' 42 8.0] = Inl (KeyError ''mentor'') \<and>
   is_cycle_complete_for_user
     [make_eval_with_score ''self'' ''submitted'' 42 9.0,
      make_eval_with_score ''mentor'' ''submitted'' 42 8.0] 0 0 =
     (False, Some ''Missing: manager evaluation'')"
  by (simp add: aggregate_competency_scores_def make_eval_with_score_def is_submitted_def
        add_score_def append_score_def empty_rel_scores_def is_cycle_complete_for_user_def
        initial_counts_def get_count_def Let_def)

section \<open>Verified properties: the services\<close>

text \<open>
  The items built from \<^verbatim>\<open>readiness_for_roles\<close> correspond one to one, in order, to the
  entries: for an entry whose percentage is a number \<open>p\<close> the item handed to the repository
  carries \<open>p / 100\<close> (the division by 1.0 is overwritten and has no effect), and for an entry
  whose percentage is null it carries none.
\<close>

lemma role_readiness_items_props:
  "map readiness_percentage (role_readiness_items aid n entries) =
     map (\<lambda>readiness. case rj_readiness_percentage readiness of
                         None \<Rightarrow> None
                       | Some p \<Rightarrow> Some (p / 100)) entries
   \<and> map item_type (role_readiness_items aid n entries) =
       replicate (length entries) ''role_readiness''
   \<and> map label (role_readiness_items aid n entries) = map rj_role entries"
proof (induction entries arbitrary: n)
  case Nil
  show ?case by simp
next
  case (Cons readiness rest)
  have "normalized_readiness (rj_readiness_percentage readiness) =
        (case rj_readiness_percentage readiness of None \<Rightarrow> None | Some p \<Rightarrow> Some (p / 100))"
    by (simp add: normalized_readiness_def Let_def split: option.splits)
  with Cons [of "n + 1"] show ?case by simp
qed











lemma numeric_5_4_examples:
  "numeric_5_4 (12.345 / 100) = 0.1235"
  "numeric_5_4 (150 / 100) = 1.5"
  "numeric_5_4 (65 / 100) = 0.65"
  by (simp_all add: numeric_5_4_def round_half_away_def)
















lemma new_scores_props:
  "map uss_skill_id (new_scores n u c agg) = map fst agg"
  "length (new_scores n u c agg) = length agg"
  "r \<in> set (new_scores n u c agg) \<Longrightarrow> uss_user_id r = u \<and> uss_evaluation_cycle_id r = c"
  by (induction n u c agg rule: new_scores.induct) auto

lemma new_scores_without_id:
  "map without_id (new_scores n u c agg) = map without_id (new_scores n' u c agg)"
  by (induction n u c agg arbitrary: n' rule: new_scores.induct) (simp_all add: without_id_def)

lemma aggregate_distinct:
  "aggregate_competency_scores entities = Inr aggregated \<Longrightarrow> distinct (map fst aggregated)"
proof -
  assume a: "aggregate_competency_scores entities = Inr aggregated"
  then obtain m where m: "collect_scores entities [] = Inr m"
    and agg: "aggregated = map (\<lambda>(sid, d). (sid, aggregate_skill d)) m"
    by (auto simp: aggregate_competency_scores_def split: sum.splits)
  show ?thesis unfolding agg map_fst_aggregate by (rule collected_entries(1) [OF m])
qed

lemma aggregate_user_skill_scores_Inr:
  assumes "aggregate_user_skill_scores u c s = (Inr (), s1)"
  obtains entities aggregated where
    "traverse orm_to_entity
       (filter (\<lambda>e. e_user_id e = u \<and> e_evaluation_cycle_id e = c \<and> e_status e = ''submitted'')
          (evaluations (session s))) = Inr entities"
    and "aggregate_competency_scores entities = Inr aggregated"
    and "user_skill_scores (session s1) =
           other_rows u c (session s) @ new_scores (next_uuid s) u c aggregated"
    and "evaluations (session s1) = evaluations (session s)"
    and "committed s1 = committed s" and "commit_log s1 = commit_log s"
    and "next_uuid s1 = next_uuid s + length aggregated"
proof -
  let ?orm = "filter (\<lambda>e. e_user_id e = u \<and> e_evaluation_cycle_id e = c \<and> e_status e = ''submitted'')
          (evaluations (session s))"
  from assms obtain entities where en: "traverse orm_to_entity ?orm = Inr entities"
    by (auto simp: aggregate_user_skill_scores_def Let_def split: sum.splits)
  from assms en obtain aggregated where ag: "aggregate_competency_scores entities = Inr aggregated"
    by (auto simp: aggregate_user_skill_scores_def Let_def split: sum.splits)
  from assms en ag have s1: "s1 = s\<lparr>session :=
        (if new_scores (next_uuid s) u c aggregated \<noteq> []
         then (snd (delete_by_user_and_cycle u c (session s)))
                \<lparr>user_skill_scores := user_skill_scores (snd (delete_by_user_and_cycle u c (session s)))
                   @ new_scores (next_uuid s) u c aggregated\<rparr>
         else snd (delete_by_user_and_cycle u c (session s))),
       next_uuid := next_uuid s + length (new_scores (next_uuid s) u c aggregated)\<rparr>"
    by (simp add: aggregate_user_skill_scores_def Let_def split_beta)
  show ?thesis
    by (rule that [OF en ag])
       (simp_all add: s1 delete_by_user_and_cycle_def other_rows_def new_scores_props(2))
qed


lemma aggregate_user_skill_scores_runs:
  assumes "traverse orm_to_entity
       (filter (\<lambda>e. e_user_id e = u \<and> e_evaluation_cycle_id e = c \<and> e_status e = ''submitted'')
          (evaluations (session s))) = Inr entities"
    and "aggregate_competency_scores entities = Inr aggregated"
  shows "\<exists>s'. aggregate_user_skill_scores u c s = (Inr (), s')"
  using assms by (simp add: aggregate_user_skill_scores_def Let_def split_beta)

lemma rows_of_after:
  assumes "user_skill_scores d' = other_rows u c d @ new_scores n u c aggregated"
  shows "rows_of u c d' = new_scores n u c aggregated"
    and "other_rows u c d' = other_rows u c d"
proof -
  have 1: "filter (\<lambda>r. uss_user_id r = u \<and> uss_evaluation_cycle_id r = c)
             (new_scores n u c aggregated) = new_scores n u c aggregated"
    by (rule filter_True) (simp add: new_scores_props(3))
  have 2: "filter (\<lambda>r. \<not> (uss_user_id r = u \<and> uss_evaluation_cycle_id r = c))
             (new_scores n u c aggregated) = []"
    by (rule filter_False) (simp add: new_scores_props(3))
  have 3: "filter (\<lambda>r. uss_user_id r = u \<and> uss_evaluation_cycle_id r = c) (other_rows u c d) = []"
    unfolding other_rows_def by (rule filter_False) simp
  have 4: "filter (\<lambda>r. \<not> (uss_user_id r = u \<and> uss_evaluation_cycle_id r = c)) (other_rows u c d)
           = other_rows u c d"
    unfolding other_rows_def by (rule filter_True) simp
  show "rows_of u c d' = new_scores n u c aggregated"
    unfolding rows_of_def assms filter_append 1 3 by simp
  show "other_rows u c d' = other_rows u c d"
    unfolding other_rows_def [of u c d'] assms filter_append 2 4 by simp
qed

text \<open>
  Claim C8. When the aggregation of a subject and cycle succeeds, the rows of that pair
  in the open transaction are exactly the freshly computed ones, one per aggregated skill
  (no stale row, no duplicate), the rows of every other pair are untouched, and nothing has
  been committed: the deletion and the insertion are in the transaction the caller commits.
  A second run on the result succeeds and leaves, for that pair, the same rows up to their
  generated identifiers, and the other rows as they were at the start.
\<close>

theorem aggregation_write_idempotent:
  assumes "aggregate_user_skill_scores user_id cycle_id s = (Inr (), s1)"
  shows "\<exists>entities aggregated s2.
      traverse orm_to_entity
        (filter (\<lambda>e. e_user_id e = user_id \<and> e_evaluation_cycle_id e = cycle_id \<and>
                     e_status e = ''submitted'') (evaluations (session s))) = Inr entities \<and>
      aggregate_competency_scores entities = Inr aggregated \<and>
      rows_of user_id cycle_id (session s1) =
        new_scores (next_uuid s) user_id cycle_id aggregated \<and>
      map uss_skill_id (rows_of user_id cycle_id (session s1)) = map fst aggregated \<and>
      distinct (map uss_skill_id (rows_of user_id cycle_id (session s1))) \<and>
      other_rows user_id cycle_id (session s1) = other_rows user_id cycle_id (session s) \<and>
      committed s1 = committed s \<and> commit_log s1 = commit_log s \<and>
      aggregate_user_skill_scores user_id cycle_id s1 = (Inr (), s2) \<and>
      map without_id (rows_of user_id cycle_id (session s2)) =
        map without_id (rows_of user_id cycle_id (session s1)) \<and>
      other_rows user_id cycle_id (session s2) = other_rows user_id cycle_id (session s) \<and>
      committed s2 = committed s \<and> commit_log s2 = commit_log s"
proof -
  from assms obtain entities aggregated where
    en: "traverse orm_to_entity
       (filter (\<lambda>e. e_user_id e = user_id \<and> e_evaluation_cycle_id e = cycle_id \<and>
                     e_status e = ''submitted'') (evaluations (session s))) = Inr entities"
    and ag: "aggregate_competency_scores entities = Inr aggregated"
    and t1: "user_skill_scores (session s1) =
           other_rows user_id cycle_id (session s) @
           new_scores (next_uuid s) user_id cycle_id aggregated"
    and ev1: "evaluations (session s1) = evaluations (session s)"
    and c1: "committed s1 = committed s" "commit_log s1 = commit_log s"
    by (rule aggregate_user_skill_scores_Inr)
  note r1 = rows_of_after [OF t1]
  from en ev1 have en1: "traverse orm_to_entity
       (filter (\<lambda>e. e_user_id e = user_id \<and> e_evaluation_cycle_id e = cycle_id \<and>
                     e_status e = ''submitted'') (evaluations (session s1))) = Inr entities"
    by simp
  from aggregate_user_skill_scores_runs [OF en1 ag] obtain s2 where
    run2: "aggregate_user_skill_scores user_id cycle_id s1 = (Inr (), s2)" by blast
  from run2 obtain entities2 aggregated2 where
    en2: "traverse orm_to_entity
       (filter (\<lambda>e. e_user_id e = user_id \<and> e_evaluation_cycle_id e = cycle_id \<and>
                     e_status e = ''submitted'') (evaluations (session s1))) = Inr entities2"
    and ag2: "aggregate_competency_scores entities2 = Inr aggregated2"
    and t2: "user_skill_scores (session s2) =
           other_rows user_id cycle_id (session s1) @
           new_scores (next_uuid s1) user_id cycle_id aggregated2"
    and c2: "committed s2 = committed s1" "commit_log s2 = commit_log s1"
    by (rule aggregate_user_skill_scores_Inr)
  from en1 en2 have "entities2 = entities" by simp
  with ag ag2 have same: "aggregated2 = aggregated" by simp
  note r2 = rows_of_after [OF t2]
  have ids: "map without_id (rows_of user_id cycle_id (session s2)) =
        map without_id (rows_of user_id cycle_id (session s1))"
    unfolding r1 r2 same by (rule new_scores_without_id)
  have skills: "map uss_skill_id (rows_of user_id cycle_id (session s1)) = map fst aggregated"
    unfolding r1 by (rule new_scores_props(1))
  have dist: "distinct (map uss_skill_id (rows_of user_id cycle_id (session s1)))"
    unfolding skills by (rule aggregate_distinct [OF ag])
  from en ag r1 skills dist c1 run2 ids r2 c2 show ?thesis by auto
qed


text \<open>
  On the example store the stale row 20 is replaced by one row for skill 7 with score 7;
  the second run replaces that row by an equal one with a new identifier.
\<close>

theorem aggregation_write_idempotent_witness:
  "fst (aggregate_user_skill_scores 1 2 aggregation_example) = Inr ()
   \<and> map (\<lambda>r. (uss_id r, uss_skill_id r, uss_score r))
        (user_skill_scores (session (snd (aggregate_user_skill_scores 1 2 aggregation_example))))
       = [(21, 7, 1), (30, 7, 7)]
   \<and> fst (aggregate_user_skill_scores 1 2 (snd (aggregate_user_skill_scores 1 2 aggregation_example)))
       = Inr ()
   \<and> map (\<lambda>r. (uss_id r, uss_skill_id r, uss_score r))
        (user_skill_scores (session (snd (aggregate_user_skill_scores 1 2
           (snd (aggregate_user_skill_scores 1 2 aggregation_example))))))
       = [(21, 7, 1), (31, 7, 7)]"
proof -
  have run: "aggregate_user_skill_scores 1 2 aggregation_example =
        (Inr (), snd (aggregate_user_skill_scores 1 2 aggregation_example))"
    by (simp add: aggregate_user_skill_scores_def aggregation_example_def empty_db_def
          stored_evaluation_def stale_score_def orm_to_entity_def CompetencyScore_init_def
          aggregate_competency_scores_def is_submitted_def add_score_def append_score_def
          empty_rel_scores_def delete_by_user_and_cycle_def Let_def)
  from aggregation_write_idempotent [OF run] show ?thesis
    by (simp add: aggregate_user_skill_scores_def aggregation_example_def empty_db_def
          stored_evaluation_def stale_score_def orm_to_entity_def CompetencyScore_init_def
          aggregate_competency_scores_def is_submitted_def add_score_def append_score_def
          empty_rel_scores_def delete_by_user_and_cycle_def Let_def aggregate_skill_def)
qed

section \<open>Verified properties: career paths\<close>

lemma title_actions_props:
  "map title (title_actions n step_id sk titles) = titles"
  "length (title_actions n step_id sk titles) = length titles"
  "a \<in> set (title_actions n step_id sk titles) \<Longrightarrow> career_path_step_id a = step_id"
  by (induction n step_id sk titles rule: title_actions.induct) auto

lemma competency_actions_props:
  "map title (competency_actions n step_id d cs) = concat (map cj_development_actions cs)"
  "a \<in> set (competency_actions n step_id d cs) \<Longrightarrow> career_path_step_id a = step_id"
  by (induction n step_id d cs rule: competency_actions.induct)
     (auto simp: Let_def title_actions_props)

lemma competency_actions_cong:
  "skills d = skills d' \<Longrightarrow> competency_actions n step_id d cs = competency_actions n step_id d' cs"
  by (induction n step_id d cs arbitrary: d' rule: competency_actions.induct)
     (simp_all add: Let_def skill_get_by_name_def)

lemma steps_actions_cong:
  "skills d = skills d' \<Longrightarrow> steps_actions n d pairs = steps_actions n d' pairs"
proof (induction n d pairs arbitrary: d' rule: steps_actions.induct)
  case (2 n d step step_data rest)
  from "2.prems" have c: "competency_actions n (cps_id step) d (sj_required_competencies step_data) =
        competency_actions n (cps_id step) d' (sj_required_competencies step_data)"
    by (rule competency_actions_cong)
  show ?case using "2.IH" [OF refl "2.prems"] c by (simp add: Let_def)
qed simp

lemma steps_actions_titles:
  "length steps = length step_datas \<Longrightarrow>
   map title (steps_actions n d (zip steps step_datas)) = concat (map step_titles step_datas)"
proof (induction steps arbitrary: step_datas n)
  case Nil
  then show ?case by simp
next
  case (Cons st steps)
  then obtain sd sds where sd: "step_datas = sd # sds" by (cases step_datas) auto
  with Cons show ?case by (simp add: Let_def competency_actions_props step_titles_def)
qed

lemma steps_actions_step_ids:
  "a \<in> set (steps_actions n d pairs) \<Longrightarrow> career_path_step_id a \<in> cps_id ` fst ` set pairs"
  by (induction n d pairs rule: steps_actions.induct)
     (auto simp: Let_def dest: competency_actions_props(2))

lemma make_steps_props:
  "length (make_steps n path_id d sds) = length sds"
  "map step_number (make_steps n path_id d sds) = map sj_step_number sds"
  "map cps_id (make_steps n path_id d sds) = [n..<n + length sds]"
  "st \<in> set (make_steps n path_id d sds) \<Longrightarrow> career_path_id st = path_id"
  by (induction n path_id d sds rule: make_steps.induct)
     (auto simp: new_step_def upt_rec)

lemma make_steps_cong:
  "roles d = roles d' \<Longrightarrow> make_steps n path_id d sds = make_steps n path_id d' sds"
  by (induction n path_id d sds arbitrary: d' rule: make_steps.induct)
     (simp_all add: new_step_def role_get_by_name_def)

lemma add_actions_None:
  "add_actions flush n pairs d = (None, d', n') \<Longrightarrow>
   d' = d\<lparr>development_actions := development_actions d @ steps_actions n d pairs\<rparr> \<and>
   n' = n + length (steps_actions n d pairs)"
proof (induction flush n pairs d rule: add_actions.induct)
  case (1 flush n d)
  then show ?case by simp
next
  case (2 flush n step step_data rest d)
  define actions where
    "actions = competency_actions n (cps_id step) d (sj_required_competencies step_data)"
  define d1 where "d1 = d\<lparr>development_actions := development_actions d @ actions\<rparr>"
  have sk: "skills d1 = skills d" by (simp add: d1_def)
  have cong: "steps_actions m d1 rest = steps_actions m d rest" for m
    by (rule steps_actions_cong [OF sk])
  show ?case
  proof (cases "actions = []")
    case True
    with "2.prems" have "add_actions flush (n + length actions) rest d = (None, d', n')"
      by (simp add: actions_def Let_def)
    from "2.IH"(2) [OF actions_def _ this] True show ?thesis
      by (simp add: actions_def [symmetric] Let_def)
  next
    case False
    with "2.prems" have fl: "flush d1 = None"
      and rec: "add_actions flush (n + length actions) rest d1 = (None, d', n')"
      by (auto simp: actions_def [symmetric] d1_def [symmetric] Let_def split: option.splits)
    from "2.IH"(1) [OF actions_def False d1_def fl rec]
    have "d' = d1\<lparr>development_actions := development_actions d1 @
                    steps_actions (n + length actions) d rest\<rparr>"
      and "n' = n + length actions + length (steps_actions (n + length actions) d rest)"
      by (simp_all only: cong)
    then show ?thesis
      by (simp add: actions_def [symmetric] Let_def d1_def)
  qed
qed

lemma add_actions_mono: "add_actions flush n pairs d = (r, d', n') \<Longrightarrow> n \<le> n'"
proof (induction flush n pairs d rule: add_actions.induct)
  case (1 flush n d)
  then show ?case by simp
next
  case (2 flush n step step_data rest d)
  define actions where
    "actions = competency_actions n (cps_id step) d (sj_required_competencies step_data)"
  define d1 where "d1 = d\<lparr>development_actions := development_actions d @ actions\<rparr>"
  show ?case
  proof (cases "actions = []")
    case True
    with "2.prems" have "add_actions flush (n + length actions) rest d = (r, d', n')"
      by (simp add: actions_def Let_def)
    from "2.IH"(2) [OF actions_def _ this] True show ?thesis by simp
  next
    case False
    show ?thesis
    proof (cases "flush d1")
      case None
      with False "2.prems" have "add_actions flush (n + length actions) rest d1 = (r, d', n')"
        by (simp add: actions_def [symmetric] d1_def [symmetric] Let_def)
      from "2.IH"(1) [OF actions_def False d1_def None this] show ?thesis by simp
    next
      case (Some e)
      with False "2.prems" show ?thesis
        by (simp add: actions_def [symmetric] d1_def [symmetric] Let_def)
    qed
  qed
qed

lemma add_actions_accepting:
  "(\<And>d. flush d = None) \<Longrightarrow> fst (add_actions flush n pairs d) = None"
  by (induction flush n pairs d rule: add_actions.induct) (simp_all add: Let_def)


lemma persist_path_Inr:
  assumes "persist_path flush n user_id assessment_id path_data d = (Inr cp, d', n')"
  shows "cp = new_career_path n user_id assessment_id path_data"
    and "d' = d\<lparr>career_paths := career_paths d @ [cp],
                 career_path_steps := career_path_steps d @ path_steps n d path_data,
                 development_actions := development_actions d @ path_actions n d path_data\<rparr>"
    and "n' = n + 1 + length (pj_steps path_data) + length (path_actions n d path_data)"
proof -
  define cp0 where "cp0 = new_career_path n user_id assessment_id path_data"
  define d1 where "d1 = d\<lparr>career_paths := career_paths d @ [cp0]\<rparr>"
  define steps where "steps = make_steps (n + 1) n d1 (pj_steps path_data)"
  define d2 where "d2 = d1\<lparr>career_path_steps := career_path_steps d1 @ steps\<rparr>"
  define n2 where "n2 = n + 1 + length steps"
  have steps_eq: "steps = path_steps n d path_data"
    unfolding steps_def path_steps_def by (rule make_steps_cong) (simp add: d1_def)
  have len: "length steps = length (pj_steps path_data)"
    by (simp add: steps_def make_steps_props)
  have d2_if: "(if steps \<noteq> [] then d1\<lparr>career_path_steps := career_path_steps d1 @ steps\<rparr> else d1) = d2"
    by (simp add: d2_def)
  have unf: "persist_path flush n user_id assessment_id path_data d =
      (case flush d1 of
         Some e \<Rightarrow> (Inl e, d1, n + 1)
       | None \<Rightarrow>
           (case (if steps \<noteq> [] then flush d2 else None) of
              Some e \<Rightarrow> (Inl e, d2, n2)
            | None \<Rightarrow>
                (case add_actions flush n2 (zip steps (pj_steps path_data)) d2 of
                   (Some e, d3, n') \<Rightarrow> (Inl e, d3, n')
                 | (None, d3, n') \<Rightarrow> (Inr cp0, d3, n'))))"
    unfolding persist_path_def Let_def cp0_def [symmetric] d1_def [symmetric]
      steps_def [symmetric] d2_if n2_def [symmetric] ..
  from assms obtain r where aa: "add_actions flush n2 (zip steps (pj_steps path_data)) d2 = (r, d', n')"
    and "r = None" and cp: "cp = cp0"
    unfolding unf by (auto split: option.splits prod.splits if_splits)
  then have aa: "add_actions flush n2 (zip steps (pj_steps path_data)) d2 = (None, d', n')" by simp
  have sk: "skills d2 = skills d" by (simp add: d2_def d1_def)
  have acts: "steps_actions n2 d2 (zip steps (pj_steps path_data)) = path_actions n d path_data"
    unfolding path_actions_def steps_eq [symmetric] n2_def len
    by (rule steps_actions_cong [OF sk])
  from add_actions_None [OF aa] have d': "d' = d2\<lparr>development_actions := development_actions d2 @ path_actions n d path_data\<rparr>"
    and n': "n' = n2 + length (path_actions n d path_data)"
    by (simp_all only: acts)
  show "cp = new_career_path n user_id assessment_id path_data" by (simp add: cp cp0_def)
  show "d' = d\<lparr>career_paths := career_paths d @ [cp],
                 career_path_steps := career_path_steps d @ path_steps n d path_data,
                 development_actions := development_actions d @ path_actions n d path_data\<rparr>"
    by (simp add: d' d2_def d1_def cp steps_eq)
  show "n' = n + 1 + length (pj_steps path_data) + length (path_actions n d path_data)"
    by (simp add: n' n2_def len)
qed

lemma persist_path_mono:
  assumes "persist_path flush n user_id assessment_id path_data d = (r, d', n')"
  shows "n < n'"
proof -
  have "n + 1 + k \<le> m" if "add_actions flush (n + 1 + k) pairs d2 = (r2, d3, m)" for k pairs d2 r2 d3 m
    using add_actions_mono [OF that] .
  with assms show ?thesis
    unfolding persist_path_def Let_def
    by (fastforce split: option.splits prod.splits if_splits)
qed

lemma persist_path_accepting:
  assumes "\<And>d. flush d = None"
  shows "\<exists>cp. fst (persist_path flush n user_id assessment_id path_data d) = Inr cp"
proof -
  define cp0 where "cp0 = new_career_path n user_id assessment_id path_data"
  define d1 where "d1 = d\<lparr>career_paths := career_paths d @ [cp0]\<rparr>"
  define steps where "steps = make_steps (n + 1) n d1 (pj_steps path_data)"
  define d2 where "d2 = (if steps \<noteq> [] then d1\<lparr>career_path_steps := career_path_steps d1 @ steps\<rparr> else d1)"
  define n2 where "n2 = n + 1 + length steps"
  have "fst (add_actions flush n2 (zip steps (pj_steps path_data)) d2) = None"
    by (rule add_actions_accepting) (rule assms)
  then obtain d3 m' where "add_actions flush n2 (zip steps (pj_steps path_data)) d2 = (None, d3, m')"
    by (metis prod.collapse)
  then have "fst (persist_path flush n user_id assessment_id path_data d) = Inr cp0"
    unfolding persist_path_def Let_def cp0_def [symmetric] d1_def [symmetric]
      steps_def [symmetric] d2_def [symmetric] n2_def [symmetric]
    by (simp add: assms)
  then show ?thesis ..
qed


lemma path_steps_props:
  "length (path_steps n d path_data) = length (pj_steps path_data)"
  "map step_number (path_steps n d path_data) = map sj_step_number (pj_steps path_data)"
  "map career_path_id (path_steps n d path_data) = replicate (length (pj_steps path_data)) n"
  "map cps_id (path_steps n d path_data) = [n + 1..<n + 1 + length (pj_steps path_data)]"
proof -
  show "length (path_steps n d path_data) = length (pj_steps path_data)"
    by (simp add: path_steps_def make_steps_props)
  show "map step_number (path_steps n d path_data) = map sj_step_number (pj_steps path_data)"
    by (simp add: path_steps_def make_steps_props)
  have "map career_path_id (path_steps n d path_data) = map (\<lambda>_. n) (path_steps n d path_data)"
    by (rule map_cong [OF refl]) (simp add: path_steps_def make_steps_props(4))
  then show "map career_path_id (path_steps n d path_data) = replicate (length (pj_steps path_data)) n"
    by (simp add: map_replicate_const path_steps_def make_steps_props)
  show "map cps_id (path_steps n d path_data) = [n + 1..<n + 1 + length (pj_steps path_data)]"
    unfolding path_steps_def by (rule make_steps_props)
qed

lemma path_actions_props:
  "map title (path_actions n d path_data) = path_titles path_data"
  "career_path_step_id ` set (path_actions n d path_data) \<subseteq> cps_id ` set (path_steps n d path_data)"
proof -
  show "map title (path_actions n d path_data) = path_titles path_data"
    unfolding path_actions_def path_titles_def
    by (rule steps_actions_titles) (simp add: path_steps_props)
  show "career_path_step_id ` set (path_actions n d path_data) \<subseteq> cps_id ` set (path_steps n d path_data)"
  proof
    fix x assume "x \<in> career_path_step_id ` set (path_actions n d path_data)"
    then obtain a where a: "a \<in> set (path_actions n d path_data)" and x: "x = career_path_step_id a"
      by auto
    from steps_actions_step_ids [OF a [unfolded path_actions_def]]
    obtain st sd where mem: "(st, sd) \<in> set (zip (path_steps n d path_data) (pj_steps path_data))"
      and eq: "career_path_step_id a = cps_id st" by auto
    from mem have "st \<in> set (path_steps n d path_data)" by (rule set_zip_leftD)
    then show "x \<in> cps_id ` set (path_steps n d path_data)"
      using x eq by simp
  qed
qed

lemma persist_paths_Inr:
  "persist_paths flush n user_id assessment_id pds d = (Inr created, d', n') \<Longrightarrow>
   \<exists>steps actions.
     d' = d\<lparr>career_paths := career_paths d @ created,
            career_path_steps := career_path_steps d @ steps,
            development_actions := development_actions d @ actions\<rparr> \<and>
     length created = length pds \<and>
     (\<forall>p\<in>set created. cp_status p = ''proposed'' \<and> cp_user_id p = user_id \<and>
                       n \<le> cp_id p \<and> cp_id p < n') \<and>
     distinct (map cp_id created) \<and> n \<le> n' \<and>
     map step_number steps = concat (map (\<lambda>pd. map sj_step_number (pj_steps pd)) pds) \<and>
     map career_path_id steps =
       concat (map (\<lambda>(p, pd). replicate (length (pj_steps pd)) (cp_id p)) (zip created pds)) \<and>
     map title actions = concat (map path_titles pds) \<and>
     career_path_step_id ` set actions \<subseteq> cps_id ` set steps"
proof (induction pds arbitrary: n d created d' n')
  case Nil
  then show ?case by simp
next
  case (Cons pd pds)
  from Cons.prems obtain cp d1 n1 rest where
    one: "persist_path flush n user_id assessment_id pd d = (Inr cp, d1, n1)"
    and more: "persist_paths flush n1 user_id assessment_id pds d1 = (Inr rest, d', n')"
    and created: "created = cp # rest"
    by (auto split: prod.splits sum.splits)
  note p = persist_path_Inr [OF one]
  from Cons.IH [OF more] obtain steps actions where
    d': "d' = d1\<lparr>career_paths := career_paths d1 @ rest,
                   career_path_steps := career_path_steps d1 @ steps,
                   development_actions := development_actions d1 @ actions\<rparr>"
    and len: "length rest = length pds"
    and each: "\<forall>p\<in>set rest. cp_status p = ''proposed'' \<and> cp_user_id p = user_id \<and>
                       n1 \<le> cp_id p \<and> cp_id p < n'"
    and dist: "distinct (map cp_id rest)" and mono: "n1 \<le> n'"
    and nums: "map step_number steps = concat (map (\<lambda>pd. map sj_step_number (pj_steps pd)) pds)"
    and parents: "map career_path_id steps =
       concat (map (\<lambda>(p, pd). replicate (length (pj_steps pd)) (cp_id p)) (zip rest pds))"
    and titles: "map title actions = concat (map path_titles pds)"
    and owners: "career_path_step_id ` set actions \<subseteq> cps_id ` set steps"
    by blast
  have lt: "n < n1" using persist_path_mono [OF one] .
  have cp_props: "cp_id cp = n" "cp_status cp = ''proposed''" "cp_user_id cp = user_id"
    by (simp_all add: p(1) new_career_path_def)
  let ?steps = "path_steps n d pd @ steps"
  let ?actions = "path_actions n d pd @ actions"
  have 1: "d' = d\<lparr>career_paths := career_paths d @ created,
            career_path_steps := career_path_steps d @ ?steps,
            development_actions := development_actions d @ ?actions\<rparr>"
    by (simp add: d' p(2) created)
  have 2: "length created = length (pd # pds)" by (simp add: created len)
  have 3: "\<forall>p\<in>set created. cp_status p = ''proposed'' \<and> cp_user_id p = user_id \<and>
                       n \<le> cp_id p \<and> cp_id p < n'"
    using each lt mono cp_props by (auto simp: created)
  have 4: "distinct (map cp_id created)"
    using dist each lt cp_props by (auto simp: created)
  have 5: "n \<le> n'" using lt mono by simp
  have 6: "map step_number ?steps = concat (map (\<lambda>pd. map sj_step_number (pj_steps pd)) (pd # pds))"
    by (simp add: nums path_steps_props)
  have 7: "map career_path_id ?steps =
       concat (map (\<lambda>(p, pd). replicate (length (pj_steps pd)) (cp_id p)) (zip created (pd # pds)))"
    by (simp add: parents path_steps_props created cp_props)
  have 8: "map title ?actions = concat (map path_titles (pd # pds))"
    by (simp add: titles path_actions_props)
  have 9: "career_path_step_id ` set ?actions \<subseteq> cps_id ` set ?steps"
    using owners path_actions_props(2) [of n d pd] by auto
  from 1 2 3 4 5 6 7 8 9 show ?case by blast
qed

lemma persist_paths_mono:
  "persist_paths flush n user_id assessment_id pds d = (r, d', n') \<Longrightarrow> n \<le> n'"
proof (induction pds arbitrary: n d r d' n')
  case Nil
  then show ?case by simp
next
  case (Cons pd pds)
  obtain r1 d1 n1 where one: "persist_path flush n user_id assessment_id pd d = (r1, d1, n1)"
    by (metis prod_cases3)
  have lt: "n < n1" using persist_path_mono [OF one] .
  show ?case
  proof (cases r1)
    case (Inl e)
    with Cons.prems one lt show ?thesis by simp
  next
    case (Inr cp)
    obtain r2 d2 n2 where more: "persist_paths flush n1 user_id assessment_id pds d1 = (r2, d2, n2)"
      by (metis prod_cases3)
    from Cons.IH [OF more] have "n1 \<le> n2" .
    with Cons.prems one Inr more lt show ?thesis by (auto split: sum.splits)
  qed
qed

lemma persist_paths_accepting:
  assumes "\<And>d. flush d = None"
  shows "\<exists>created. fst (persist_paths flush n user_id assessment_id pds d) = Inr created"
proof (induction pds arbitrary: n d)
  case Nil
  show ?case by simp
next
  case (Cons pd pds)
  from persist_path_accepting [of flush n user_id assessment_id pd d] assms
  obtain cp d1 n1 where one: "persist_path flush n user_id assessment_id pd d = (Inr cp, d1, n1)"
    by (metis fst_conv prod_cases3)
  from Cons [of n1 d1]
  obtain rest d2 n2 where "persist_paths flush n1 user_id assessment_id pds d1 = (Inr rest, d2, n2)"
    by (metis fst_conv prod_cases3)
  with one show ?case by simp
qed

lemma accept_row_keys [simp]:
  "cp_id (accept_row path_id user_id p) = cp_id p"
  "cp_user_id (accept_row path_id user_id p) = cp_user_id p"
  by (simp_all add: accept_row_def)

lemma find_by_id_map:
  assumes "\<And>p. cp_id (f p) = cp_id p"
  shows "find (\<lambda>p. cp_id p = i) (map f l) = map_option f (find (\<lambda>p. cp_id p = i) l)"
  by (induction l) (simp_all add: assms)

lemma find_in_set: "find P l = Some x \<Longrightarrow> x \<in> set l \<and> P x"
  by (induction l) (auto split: if_splits)

lemma repo_accept_path_eq:
  assumes "career_path_get_by_id path_id d = Some path" and "cp_user_id path = user_id"
  shows "repo_accept_path path_id user_id d =
           (Some (path\<lparr>cp_status := ''accepted''\<rparr>),
            d\<lparr>career_paths := map (accept_row path_id user_id) (career_paths d)\<rparr>)"
proof -
  let ?f1 = "\<lambda>p. if cp_id p = path_id then p\<lparr>cp_status := ''accepted''\<rparr> else p"
  let ?f2 = "\<lambda>p. if cp_user_id p = user_id \<and> cp_id p \<noteq> path_id \<and>
                     cp_status p \<in> set [''proposed'', ''accepted'']
                  then p\<lparr>cp_status := ''discarded''\<rparr> else p"
  have comp: "?f2 \<circ> ?f1 = accept_row path_id user_id"
    by (rule ext) (auto simp: accept_row_def)
  have found: "find (\<lambda>p. cp_id p = path_id) (career_paths d) = Some path"
    using assms(1) by (simp add: career_path_get_by_id_def)
  from find_in_set [OF found] have pid: "cp_id path = path_id" by simp
  have "find (\<lambda>p. cp_id p = path_id) (map (accept_row path_id user_id) (career_paths d)) =
        Some (accept_row path_id user_id path)"
    by (simp add: find_by_id_map found)
  also have "accept_row path_id user_id path = path\<lparr>cp_status := ''accepted''\<rparr>"
    by (simp add: accept_row_def pid)
  finally have look: "career_path_get_by_id path_id
        (d\<lparr>career_paths := map (accept_row path_id user_id) (career_paths d)\<rparr>) =
        Some (path\<lparr>cp_status := ''accepted''\<rparr>)"
    by (simp add: career_path_get_by_id_def)
  show ?thesis
    unfolding repo_accept_path_def assms(1) using assms(2) look
    by (simp add: Let_def comp del: set_simps)
qed

lemma accept_path_eq:
  assumes "career_path_get_by_id path_id (session s) = Some path"
    and "cp_user_id path = user_id" and "cp_status path = ''proposed''"
  shows "accept_path path_id user_id s =
           (Inr (path\<lparr>cp_status := ''accepted''\<rparr>),
            commit (s\<lparr>session := (session s)\<lparr>career_paths :=
                      map (accept_row path_id user_id) (career_paths (session s))\<rparr>\<rparr>))"
  unfolding accept_path_def by (simp add: assms repo_accept_path_eq [OF assms(1,2)])

lemma accept_path_error:
  assumes "accept_path path_id user_id s = (Inl e, s')"
  shows "s' = s"
proof (cases "career_path_get_by_id path_id (session s)")
  case None
  with assms show ?thesis by (simp add: accept_path_def)
next
  case (Some path)
  show ?thesis
  proof (cases "cp_user_id path = user_id \<and> cp_status path = ''proposed''")
    case True
    with accept_path_eq [OF Some] assms show ?thesis by simp
  next
    case False
    with Some assms show ?thesis by (auto simp: accept_path_def split: if_splits)
  qed
qed

lemma accept_row_one_accepted:
  assumes ok: "one_accepted_per_user d"
    and found: "career_path_get_by_id path_id d = Some path" and "cp_user_id path = user_id"
  shows "one_accepted_per_user (d\<lparr>career_paths := map (accept_row path_id user_id) (career_paths d)\<rparr>)"
proof -
  let ?l = "career_paths d"
  from ok have dist: "distinct (map cp_id ?l)"
    and uniq: "\<And>p q. p \<in> set ?l \<Longrightarrow> q \<in> set ?l \<Longrightarrow> cp_status p = ''accepted'' \<Longrightarrow>
                 cp_status q = ''accepted'' \<Longrightarrow> cp_user_id p = cp_user_id q \<Longrightarrow> p = q"
    by (auto simp: one_accepted_per_user_def)
  from found have "find (\<lambda>p. cp_id p = path_id) ?l = Some path"
    by (simp add: career_path_get_by_id_def)
  from find_in_set [OF this] have path: "path \<in> set ?l" "cp_id path = path_id" by simp_all
  have same_id: "p = q" if "p \<in> set ?l" "q \<in> set ?l" "cp_id p = cp_id q" for p q
    using that dist by (meson distinct_map inj_on_def)
  have "map cp_id (map (accept_row path_id user_id) ?l) = map cp_id ?l"
    by (simp add: comp_def)
  with dist have d': "distinct (map cp_id (map (accept_row path_id user_id) ?l))"
    by (simp only:)
  have u': "accept_row path_id user_id p = accept_row path_id user_id q"
    if p: "p \<in> set ?l" and q: "q \<in> set ?l"
      and ap: "cp_status (accept_row path_id user_id p) = ''accepted''"
      and aq: "cp_status (accept_row path_id user_id q) = ''accepted''"
      and us: "cp_user_id p = cp_user_id q" for p q
  proof (cases "cp_user_id p = user_id")
    case True
    with ap have "cp_id p = path_id" by (auto simp: accept_row_def split: if_splits)
    moreover from True us aq have "cp_id q = path_id" by (auto simp: accept_row_def split: if_splits)
    ultimately have "p = q" using same_id [OF p q] by simp
    then show ?thesis by simp
  next
    case False
    have np: "cp_id p \<noteq> path_id"
    proof
      assume "cp_id p = path_id"
      with same_id [OF p path(1)] path(2) have "p = path" by simp
      with assms(3) False show False by simp
    qed
    have nq: "cp_id q \<noteq> path_id"
    proof
      assume "cp_id q = path_id"
      with same_id [OF q path(1)] path(2) have "q = path" by simp
      with assms(3) False us show False by simp
    qed
    from np False have ep: "accept_row path_id user_id p = p" by (simp add: accept_row_def)
    from nq False us have eq: "accept_row path_id user_id q = q" by (simp add: accept_row_def)
    from uniq [OF p q] ap aq us ep eq show ?thesis by simp
  qed
  have "\<forall>p\<in>set (map (accept_row path_id user_id) ?l).
          \<forall>q\<in>set (map (accept_row path_id user_id) ?l).
            cp_status p = ''accepted'' \<and> cp_status q = ''accepted'' \<and> cp_user_id p = cp_user_id q
              \<longrightarrow> p = q"
  proof (intro ballI impI)
    fix p q
    assume "p \<in> set (map (accept_row path_id user_id) ?l)"
      and "q \<in> set (map (accept_row path_id user_id) ?l)"
      and c: "cp_status p = ''accepted'' \<and> cp_status q = ''accepted'' \<and> cp_user_id p = cp_user_id q"
    then obtain p0 q0 where p0: "p0 \<in> set ?l" "p = accept_row path_id user_id p0"
      and q0: "q0 \<in> set ?l" "q = accept_row path_id user_id q0"
      by auto
    from c have "cp_user_id p0 = cp_user_id q0" by (simp add: p0(2) q0(2))
    from u' [OF p0(1) q0(1) _ _ this] c show "p = q" by (simp add: p0(2) q0(2))
  qed
  moreover have "career_paths (d\<lparr>career_paths := map (accept_row path_id user_id) ?l\<rparr>) =
      map (accept_row path_id user_id) ?l"
    by simp
  ultimately show ?thesis
    unfolding one_accepted_per_user_def using d' by (simp only: simp_thms)
qed

lemma generate_career_paths_unfold:
  assumes "user_get_by_id user_id (session s) = Some user"
    and "(case skills_assessment_id of
            Some aid \<Rightarrow> assessment_get_by_id aid (session s)
          | None \<Rightarrow> assessment_get_latest_by_user_id user_id (session s)) = Some assessment"
  shows "generate_career_paths flush ai_call latency user_id skills_assessment_id career_interests
           time_horizon_years s =
     (let ai_log = pending_log (next_uuid s) user_id assessment
                     (request_payload_of user assessment user_id career_interests
                        time_horizon_years (session s));
          d1 = (session s)\<lparr>ai_calls_log := ai_calls_log (session s) @ [ai_log]\<rparr>
      in case ai_call of
           Inl e \<Rightarrow>
             (let d2 = update_log (next_uuid s)
                         (\<lambda>l. l\<lparr>log_status := ''error'', error_message := Some (str_exn e)\<rparr>) d1
              in (Inl (ExternalServiceError (''AI Career Path service failed: '' @ str_exn e)
                         [Service ''career_paths'']),
                  s\<lparr>session := d2, committed := d2, commit_log := commit_log s @ [d1, d2],
                    next_uuid := next_uuid s + 1\<rparr>))
         | Inr ai_response \<Rightarrow>
             (case persist_paths flush (next_uuid s + 1) user_id (sa_id assessment)
                     (generated_paths ai_response) d1 of
                (Inl e, d, n) \<Rightarrow>
                  (Inl e, s\<lparr>session := d, committed := d1, commit_log := commit_log s @ [d1],
                            next_uuid := n\<rparr>)
              | (Inr created_paths, d, n) \<Rightarrow>
                  (let d2 = update_log (next_uuid s)
                              (\<lambda>l. l\<lparr>log_career_path_id :=
                                         (case created_paths of
                                            [] \<Rightarrow> log_career_path_id l
                                          | p # ps \<Rightarrow> Some (cp_id p)),
                                       log_status := ''success'',
                                       response_payload := Some ai_response,
                                       latency_ms := Some latency\<rparr>) d
                   in (Inr created_paths,
                       s\<lparr>session := d2, committed := d2, commit_log := commit_log s @ [d1, d2],
                         next_uuid := n\<rparr>))))"
  unfolding generate_career_paths_def assms
  by (simp add: Let_def commit_def pending_log_def split: sum.splits prod.splits)

lemma one_accepted_same_paths:
  "career_paths d' = career_paths d \<Longrightarrow> one_accepted_per_user d' = one_accepted_per_user d"
  by (simp add: one_accepted_per_user_def)

lemma one_accepted_append:
  assumes ok: "one_accepted_per_user d"
    and old: "\<forall>p\<in>set (career_paths d). cp_id p < n"
    and new: "\<forall>p\<in>set created. cp_status p = ''proposed'' \<and> n \<le> cp_id p"
    and dist: "distinct (map cp_id created)"
    and eq: "career_paths d' = career_paths d @ created"
  shows "one_accepted_per_user d'"
proof -
  from ok have d0: "distinct (map cp_id (career_paths d))"
    and uniq: "\<And>p q. p \<in> set (career_paths d) \<Longrightarrow> q \<in> set (career_paths d) \<Longrightarrow>
                 cp_status p = ''accepted'' \<Longrightarrow> cp_status q = ''accepted'' \<Longrightarrow>
                 cp_user_id p = cp_user_id q \<Longrightarrow> p = q"
    by (auto simp: one_accepted_per_user_def)
  have disj: "cp_id ` set (career_paths d) \<inter> cp_id ` set created = {}"
    using old new by fastforce
  have 1: "distinct (map cp_id (career_paths d'))"
    using d0 dist disj by (simp add: eq)
  have acc: "p \<in> set (career_paths d)"
    if "p \<in> set (career_paths d')" "cp_status p = ''accepted''" for p
    using that new by (auto simp: eq)
  have 2: "\<forall>p\<in>set (career_paths d'). \<forall>q\<in>set (career_paths d').
        cp_status p = ''accepted'' \<and> cp_status q = ''accepted'' \<and> cp_user_id p = cp_user_id q
        \<longrightarrow> p = q"
    using acc uniq by blast
  from 1 2 show ?thesis unfolding one_accepted_per_user_def by (rule conjI)
qed

lemma generate_career_paths_consistent:
  assumes inv: "consistent s"
    and run: "generate_career_paths flush ai_call latency user_id skills_assessment_id
                career_interests time_horizon_years s = (r, s')"
  shows "consistent (rollback s')"
proof (cases "user_get_by_id user_id (session s)")
  case None
  with run have "s' = s" by (simp add: generate_career_paths_def)
  with inv show ?thesis by (simp add: consistent_def rollback_def)
next
  case (Some user)
  show ?thesis
  proof (cases "case skills_assessment_id of
            Some aid \<Rightarrow> assessment_get_by_id aid (session s)
          | None \<Rightarrow> assessment_get_latest_by_user_id user_id (session s)")
    case None
    with Some run have "s' = s" by (simp add: generate_career_paths_def)
    with inv show ?thesis by (simp add: consistent_def rollback_def)
  next
    case (Some assessment)
    define d1 where "d1 = (session s)\<lparr>ai_calls_log := ai_calls_log (session s) @
        [pending_log (next_uuid s) user_id assessment
           (request_payload_of user assessment user_id career_interests
              time_horizon_years (session s))]\<rparr>"
    note unf = generate_career_paths_unfold [OF \<open>user_get_by_id user_id (session s) = Some user\<close> Some,
        of flush ai_call latency career_interests time_horizon_years, unfolded Let_def,
        folded d1_def]
    from inv have ses: "session s = committed s" and ok: "one_accepted_per_user (session s)"
      and logged: "list_all one_accepted_per_user (commit_log s)"
      and below: "list_all (\<lambda>p. cp_id p < next_uuid s) (career_paths (session s))"
      by (simp_all add: consistent_def)
    have cp1: "career_paths d1 = career_paths (session s)" by (simp add: d1_def)
    have ok1: "one_accepted_per_user d1"
      using ok one_accepted_same_paths [OF cp1] by simp
    show ?thesis
    proof (cases ai_call)
      case (Inl e)
      define d2 where "d2 = update_log (next_uuid s)
          (\<lambda>l. l\<lparr>log_status := ''error'', error_message := Some (str_exn e)\<rparr>) d1"
      have cp2: "career_paths d2 = career_paths (session s)"
        by (simp add: d2_def update_log_def cp1)
      have ok2: "one_accepted_per_user d2"
        using ok one_accepted_same_paths [OF cp2] by simp
      from run [unfolded unf] have s': "s' = s\<lparr>session := d2, committed := d2,
          commit_log := commit_log s @ [d1, d2], next_uuid := next_uuid s + 1\<rparr>"
        by (simp add: Inl d2_def)
      show ?thesis
        using ok1 ok2 logged below
        by (simp add: s' consistent_def rollback_def cp2 list_all_iff) fastforce
    next
      case (Inr ai_response)
      obtain pr d n where pp: "persist_paths flush (next_uuid s + 1) user_id (sa_id assessment)
                     (generated_paths ai_response) d1 = (pr, d, n)"
        by (metis prod_cases3)
      have mono: "next_uuid s + 1 \<le> n" using persist_paths_mono [OF pp] .
      have pp': "persist_paths flush (Suc (next_uuid s)) user_id (sa_id assessment)
                     (generated_paths ai_response) d1 = (pr, d, n)"
        using pp by simp
      show ?thesis
      proof (cases pr)
        case (Inl e)
        from run [unfolded unf] have s': "s' = s\<lparr>session := d, committed := d1,
            commit_log := commit_log s @ [d1], next_uuid := n\<rparr>"
          by (simp add: \<open>ai_call = Inr ai_response\<close> pp' Inl)
        show ?thesis
          using ok1 logged below mono
          by (simp add: s' consistent_def rollback_def cp1 list_all_iff) fastforce
      next
        case (Inr created)
        define d2 where "d2 = update_log (next_uuid s)
                              (\<lambda>l. l\<lparr>log_career_path_id :=
                                         (case created of
                                            [] \<Rightarrow> log_career_path_id l
                                          | p # ps \<Rightarrow> Some (cp_id p)),
                                       log_status := ''success'',
                                       response_payload := Some ai_response,
                                       latency_ms := Some latency\<rparr>) d"
        from run [unfolded unf] have s': "s' = s\<lparr>session := d2, committed := d2,
            commit_log := commit_log s @ [d1, d2], next_uuid := n\<rparr>"
          by (simp add: \<open>ai_call = Inr ai_response\<close> pp' Inr d2_def)
        from persist_paths_Inr [OF pp [unfolded Inr]]
        have cpd: "career_paths d = career_paths d1 @ created"
          and each: "\<forall>p\<in>set created. cp_status p = ''proposed'' \<and> cp_user_id p = user_id \<and>
                       next_uuid s + 1 \<le> cp_id p \<and> cp_id p < n"
          and dist: "distinct (map cp_id created)"
          by auto
        have cp2: "career_paths d2 = career_paths (session s) @ created"
          by (simp add: d2_def update_log_def cpd cp1)
        have ok2: "one_accepted_per_user d2"
        proof (rule one_accepted_append [OF ok _ _ dist cp2])
          show "\<forall>p\<in>set (career_paths (session s)). cp_id p < next_uuid s"
            using below by (simp add: list_all_iff)
          show "\<forall>p\<in>set created. cp_status p = ''proposed'' \<and> next_uuid s \<le> cp_id p"
            using each by auto
        qed
        show ?thesis
          using ok1 ok2 logged below mono each
          by (simp add: s' consistent_def rollback_def cp2 list_all_iff) fastforce
      qed
    qed
  qed
qed

lemma accept_path_consistent:
  assumes inv: "consistent s" and run: "accept_path path_id user_id s = (r, s')"
  shows "consistent (rollback s')"
proof (cases r)
  case (Inl e)
  with run accept_path_error have "s' = s" by simp
  with inv show ?thesis by (simp add: consistent_def rollback_def)
next
  case (Inr accepted_path)
  from run Inr obtain path where found: "career_path_get_by_id path_id (session s) = Some path"
    and own: "cp_user_id path = user_id" and st: "cp_status path = ''proposed''"
    by (auto simp: accept_path_def split: option.splits if_splits)
  define d where "d = (session s)\<lparr>career_paths :=
                      map (accept_row path_id user_id) (career_paths (session s))\<rparr>"
  from run have s': "s' = commit (s\<lparr>session := d\<rparr>)"
    by (simp add: accept_path_eq [OF found own st] d_def)
  from inv have ok: "one_accepted_per_user (session s)"
    and logged: "list_all one_accepted_per_user (commit_log s)"
    and below: "list_all (\<lambda>p. cp_id p < next_uuid s) (career_paths (session s))"
    by (simp_all add: consistent_def)
  have okd: "one_accepted_per_user d"
    unfolding d_def by (rule accept_row_one_accepted [OF ok found own])
  show ?thesis
    using okd logged below
    by (simp add: s' commit_def consistent_def rollback_def d_def list_all_iff)
qed

lemma reachable_consistent: "reachable s \<Longrightarrow> consistent s"
proof (induction rule: reachable.induct)
  case (initial s)
  then show ?case by (simp add: consistent_def one_accepted_per_user_def)
next
  case (generated s flush ai_call latency user_id skills_assessment_id career_interests
      time_horizon_years r s')
  from generate_career_paths_consistent [OF generated.IH generated.hyps(2)] show ?case .
next
  case (accepted s path_id user_id r' s')
  from accept_path_consistent [OF accepted.IH accepted.hyps(2)] show ?case .
qed

lemma example_lookups:
  "user_get_by_id 1 (session example_system) = Some \<lparr>u_id = 1, u_role_id = None\<rparr>"
  "(case None of
      Some aid \<Rightarrow> assessment_get_by_id aid (session example_system)
    | None \<Rightarrow> assessment_get_latest_by_user_id 1 (session example_system)) =
     Some \<lparr>sa_id = 2, sa_user_id = 1, sa_evaluation_cycle_id = Some 3,
           sa_status = ''completed'', sa_processed_at = Some 0\<rparr>"
  by (simp_all add: example_system_def example_store_def empty_db_def user_get_by_id_def
        assessment_get_latest_by_user_id_def)

lemma example_run:
  "\<exists>p1 p2 s'. generate_career_paths integrity_check (Inr example_response) 7 1 None None 3 example_system
           = (Inr [p1, p2], s') \<and>
     cp_id p1 = 11 \<and> cp_id p2 = 15 \<and> cp_user_id p1 = 1 \<and> cp_user_id p2 = 1 \<and>
     cp_status p1 = ''proposed'' \<and> cp_status p2 = ''proposed'' \<and>
     session s' = committed s' \<and>
     career_paths (committed s') = [p1, p2] \<and>
     map career_path_id (career_path_steps (committed s')) = [11, 11, 15, 15] \<and>
     map step_number (career_path_steps (committed s')) = [Some 1, Some 2, Some 3, Some 4] \<and>
     map title (development_actions (committed s')) = [''Leadership Course'', ''Mentoring'', ''Project X''] \<and>
     map log_status (ai_calls_log (committed s')) = [''success''] \<and>
     length (commit_log s') = 2"
  unfolding generate_career_paths_unfold [OF example_lookups]
  by (simp add: Let_def example_system_def example_store_def empty_db_def example_response_def
        example_step_def persist_path_def new_career_path_def new_step_def integrity_check_def
        update_log_def pending_log_def resolve_name_def role_get_by_name_def skill_get_by_name_def)

lemma persist_path_Inr_flush:
  assumes "persist_path flush n user_id assessment_id path_data d = (Inr cp, d', n')"
    and "pj_steps path_data \<noteq> []"
  shows "flush (d\<lparr>career_paths := career_paths d @ [cp],
                 career_path_steps := career_path_steps d @ path_steps n d path_data\<rparr>) = None"
proof -
  define cp0 where "cp0 = new_career_path n user_id assessment_id path_data"
  define d1 where "d1 = d\<lparr>career_paths := career_paths d @ [cp0]\<rparr>"
  define steps where "steps = make_steps (n + 1) n d1 (pj_steps path_data)"
  have steps_eq: "steps = path_steps n d path_data"
    unfolding steps_def path_steps_def by (rule make_steps_cong) (simp add: d1_def)
  have ne: "steps \<noteq> []"
    using assms(2) make_steps_props(1) [of "n + 1" n d1 "pj_steps path_data"]
    by (auto simp: steps_def)
  from assms(1) have "flush (d1\<lparr>career_path_steps := career_path_steps d1 @ steps\<rparr>) = None"
    and "cp = cp0"
    unfolding persist_path_def Let_def cp0_def [symmetric] d1_def [symmetric] steps_def [symmetric]
    using ne by (auto split: option.splits prod.splits)
  then show ?thesis by (simp add: d1_def steps_eq)
qed

lemma integrity_check_None:
  "integrity_check d = None \<Longrightarrow>
   distinct (map (\<lambda>st. (career_path_id st, step_number st)) (career_path_steps d))"
  by (simp add: integrity_check_def split: if_splits)

lemma generate_career_paths_two_paths:
  assumes found: "user_get_by_id user_id (session s) = Some user"
    and assessed: "(case skills_assessment_id of
                      Some aid \<Rightarrow> assessment_get_by_id aid (session s)
                    | None \<Rightarrow> assessment_get_latest_by_user_id user_id (session s)) = Some assessment"
  shows
    "(ai_call = Inr ai_response \<and> generated_paths ai_response = [path_a, path_b] \<and>
      length (pj_steps path_a) = 2 \<and> length (pj_steps path_b) = 2 \<and>
      generate_career_paths flush ai_call latency user_id skills_assessment_id career_interests
        time_horizon_years s = (Inr created, s') \<longrightarrow>
      (\<exists>p1 p2 steps actions d1.
         created = [p1, p2] \<and> cp_id p1 \<noteq> cp_id p2 \<and>
         cp_status p1 = ''proposed'' \<and> cp_status p2 = ''proposed'' \<and>
         cp_user_id p1 = user_id \<and> cp_user_id p2 = user_id \<and>
         commit_log s' = commit_log s @ [d1, committed s'] \<and>
         career_paths d1 = career_paths (session s) \<and>
         career_path_steps d1 = career_path_steps (session s) \<and>
         development_actions d1 = development_actions (session s) \<and>
         career_paths (committed s') = career_paths (session s) @ [p1, p2] \<and>
         career_path_steps (committed s') = career_path_steps (session s) @ steps \<and>
         development_actions (committed s') = development_actions (session s) @ actions \<and>
         map career_path_id steps = [cp_id p1, cp_id p1, cp_id p2, cp_id p2] \<and>
         map step_number steps = map sj_step_number (pj_steps path_a @ pj_steps path_b) \<and>
         map title actions = path_titles path_a @ path_titles path_b \<and>
         career_path_step_id ` set actions \<subseteq> cps_id ` set steps \<and>
         (flush = integrity_check \<longrightarrow>
            distinct (map (\<lambda>st. (career_path_id st, step_number st))
                        (career_path_steps (committed s'))))))"
proof (intro impI, elim conjE)
  assume ai: "ai_call = Inr ai_response" and shape: "generated_paths ai_response = [path_a, path_b]"
    and la: "length (pj_steps path_a) = 2" and lb: "length (pj_steps path_b) = 2"
    and run: "generate_career_paths flush ai_call latency user_id skills_assessment_id
                career_interests time_horizon_years s = (Inr created, s')"
  define d1 where "d1 = (session s)\<lparr>ai_calls_log := ai_calls_log (session s) @
        [pending_log (next_uuid s) user_id assessment
           (request_payload_of user assessment user_id career_interests
              time_horizon_years (session s))]\<rparr>"
  note unf = generate_career_paths_unfold [OF found assessed,
        of flush ai_call latency career_interests time_horizon_years, unfolded Let_def,
        folded d1_def]
  obtain pr d n where pp: "persist_paths flush (Suc (next_uuid s)) user_id (sa_id assessment)
                     [path_a, path_b] d1 = (pr, d, n)"
    by (metis prod_cases3)
  define d2 where "d2 = update_log (next_uuid s)
                          (\<lambda>l. l\<lparr>log_career_path_id :=
                                     (case created of
                                        [] \<Rightarrow> log_career_path_id l
                                      | p # ps \<Rightarrow> Some (cp_id p)),
                                   log_status := ''success'',
                                   response_payload := Some ai_response,
                                   latency_ms := Some latency\<rparr>) d"
  from run [unfolded unf] have pr: "pr = Inr created"
    and s': "s' = s\<lparr>session := d2, committed := d2,
            commit_log := commit_log s @ [d1, d2], next_uuid := n\<rparr>"
    by (auto simp: ai shape pp d2_def simp del: persist_paths.simps split: sum.splits)
  from pp [unfolded pr] obtain p1 da na p2 where
    a: "persist_path flush (Suc (next_uuid s)) user_id (sa_id assessment) path_a d1 = (Inr p1, da, na)"
    and b: "persist_path flush na user_id (sa_id assessment) path_b da = (Inr p2, d, n)"
    and created: "created = [p1, p2]"
    by (auto split: prod.splits sum.splits)
  note A = persist_path_Inr [OF a] and B = persist_path_Inr [OF b]
  define steps where "steps = path_steps (Suc (next_uuid s)) d1 path_a @ path_steps na da path_b"
  define actions where
    "actions = path_actions (Suc (next_uuid s)) d1 path_a @ path_actions na da path_b"
  have ids: "cp_id p1 = Suc (next_uuid s)" "cp_id p2 = na"
    by (simp_all add: A(1) B(1) new_career_path_def)
  have lt: "Suc (next_uuid s) < na" using persist_path_mono [OF a] .
  have d: "d = d1\<lparr>career_paths := career_paths d1 @ [p1, p2],
                  career_path_steps := career_path_steps d1 @ steps,
                  development_actions := development_actions d1 @ actions\<rparr>"
    by (simp add: B(2) A(2) steps_def actions_def)
  have c2: "career_paths d2 = career_paths (session s) @ [p1, p2]"
    and s2: "career_path_steps d2 = career_path_steps (session s) @ steps"
    and a2: "development_actions d2 = development_actions (session s) @ actions"
    by (simp_all add: d2_def update_log_def d d1_def)
  have 1: "cp_id p1 \<noteq> cp_id p2" using lt ids by simp
  have 2: "cp_status p1 = ''proposed''" "cp_status p2 = ''proposed''"
    "cp_user_id p1 = user_id" "cp_user_id p2 = user_id"
    by (simp_all add: A(1) B(1) new_career_path_def)
  have 3: "commit_log s' = commit_log s @ [d1, committed s']" by (simp add: s')
  have 4: "career_paths d1 = career_paths (session s)"
    "career_path_steps d1 = career_path_steps (session s)"
    "development_actions d1 = development_actions (session s)"
    by (simp_all add: d1_def)
  have 5: "career_paths (committed s') = career_paths (session s) @ [p1, p2]"
    "career_path_steps (committed s') = career_path_steps (session s) @ steps"
    "development_actions (committed s') = development_actions (session s) @ actions"
    by (simp_all add: s' c2 s2 a2)
  have 6: "map career_path_id steps = [cp_id p1, cp_id p1, cp_id p2, cp_id p2]"
    by (simp add: steps_def path_steps_props la lb ids numeral_2_eq_2)
  have 7: "map step_number steps = map sj_step_number (pj_steps path_a @ pj_steps path_b)"
    by (simp add: steps_def path_steps_props)
  have 8: "map title actions = path_titles path_a @ path_titles path_b"
    by (simp add: actions_def path_actions_props)
  have 9: "career_path_step_id ` set actions \<subseteq> cps_id ` set steps"
    using path_actions_props(2) [of "Suc (next_uuid s)" d1 path_a]
      path_actions_props(2) [of na da path_b]
    by (auto simp: actions_def steps_def)
  have 10: "flush = integrity_check \<longrightarrow>
            distinct (map (\<lambda>st. (career_path_id st, step_number st))
                        (career_path_steps (committed s')))"
  proof
    assume fl: "flush = integrity_check"
    from lb have "pj_steps path_b \<noteq> []" by auto
    from persist_path_Inr_flush [OF b this]
    have "integrity_check (da\<lparr>career_paths := career_paths da @ [p2],
             career_path_steps := career_path_steps da @ path_steps na da path_b\<rparr>) = None"
      by (simp add: fl)
    from integrity_check_None [OF this]
    show "distinct (map (\<lambda>st. (career_path_id st, step_number st))
                        (career_path_steps (committed s')))"
      by (simp add: 5 steps_def A(2) 4)
  qed
  show "\<exists>p1 p2 steps actions d1.
         created = [p1, p2] \<and> cp_id p1 \<noteq> cp_id p2 \<and>
         cp_status p1 = ''proposed'' \<and> cp_status p2 = ''proposed'' \<and>
         cp_user_id p1 = user_id \<and> cp_user_id p2 = user_id \<and>
         commit_log s' = commit_log s @ [d1, committed s'] \<and>
         career_paths d1 = career_paths (session s) \<and>
         career_path_steps d1 = career_path_steps (session s) \<and>
         development_actions d1 = development_actions (session s) \<and>
         career_paths (committed s') = career_paths (session s) @ [p1, p2] \<and>
         career_path_steps (committed s') = career_path_steps (session s) @ steps \<and>
         development_actions (committed s') = development_actions (session s) @ actions \<and>
         map career_path_id steps = [cp_id p1, cp_id p1, cp_id p2, cp_id p2] \<and>
         map step_number steps = map sj_step_number (pj_steps path_a @ pj_steps path_b) \<and>
         map title actions = path_titles path_a @ path_titles path_b \<and>
         career_path_step_id ` set actions \<subseteq> cps_id ` set steps \<and>
         (flush = integrity_check \<longrightarrow>
            distinct (map (\<lambda>st. (career_path_id st, step_number st))
                        (career_path_steps (committed s'))))"
    by (intro exI [of _ p1] exI [of _ p2] exI [of _ steps] exI [of _ actions] exI [of _ d1] conjI
          created 1 2 3 4 5 6 7 8 9 10)
qed

lemma generate_career_paths_accepted:
  assumes found: "user_get_by_id user_id (session s) = Some user"
    and assessed: "(case skills_assessment_id of
                      Some aid \<Rightarrow> assessment_get_by_id aid (session s)
                    | None \<Rightarrow> assessment_get_latest_by_user_id user_id (session s)) = Some assessment"
    and accepting: "\<And>d. flush d = None"
  shows "\<exists>created s'. generate_career_paths flush (Inr ai_response) latency user_id
           skills_assessment_id career_interests time_horizon_years s = (Inr created, s')"
proof -
  define d1 where "d1 = (session s)\<lparr>ai_calls_log := ai_calls_log (session s) @
        [pending_log (next_uuid s) user_id assessment
           (request_payload_of user assessment user_id career_interests
              time_horizon_years (session s))]\<rparr>"
  note unf = generate_career_paths_unfold [OF found assessed,
        of flush "Inr ai_response" latency career_interests time_horizon_years, unfolded Let_def,
        folded d1_def]
  from persist_paths_accepting [of flush "Suc (next_uuid s)" user_id "sa_id assessment"
      "generated_paths ai_response" d1] accepting
  obtain created d n where "persist_paths flush (Suc (next_uuid s)) user_id (sa_id assessment)
      (generated_paths ai_response) d1 = (Inr created, d, n)"
    by (metis fst_conv prod_cases3)
  then show ?thesis unfolding unf by simp
qed

lemma generate_career_paths_failure:
  assumes found: "user_get_by_id user_id (session s) = Some user"
    and assessed: "(case skills_assessment_id of
                      Some aid \<Rightarrow> assessment_get_by_id aid (session s)
                    | None \<Rightarrow> assessment_get_latest_by_user_id user_id (session s)) = Some assessment"
  shows "\<exists>d1 d2.
      generate_career_paths flush (Inl e) latency user_id skills_assessment_id career_interests
        time_horizon_years s =
        (Inl (ExternalServiceError (''AI Career Path service failed: '' @ str_exn e)
                [Service ''career_paths'']),
         s\<lparr>session := d2, committed := d2, commit_log := commit_log s @ [d1, d2],
           next_uuid := next_uuid s + 1\<rparr>) \<and>
      career_paths d1 = career_paths (session s) \<and>
      career_paths d2 = career_paths (session s) \<and>
      (\<exists>l \<in> set (ai_calls_log d2).
         log_id l = next_uuid s \<and> log_user_id l = user_id \<and> log_status l = ''error'' \<and>
         error_message l = Some (str_exn e))"
proof -
  define d1 where "d1 = (session s)\<lparr>ai_calls_log := ai_calls_log (session s) @
        [pending_log (next_uuid s) user_id assessment
           (request_payload_of user assessment user_id career_interests
              time_horizon_years (session s))]\<rparr>"
  define d2 where "d2 = update_log (next_uuid s)
          (\<lambda>l. l\<lparr>log_status := ''error'', error_message := Some (str_exn e)\<rparr>) d1"
  note unf = generate_career_paths_unfold [OF found assessed,
        of flush "Inl e" latency career_interests time_horizon_years, unfolded Let_def,
        folded d1_def]
  have 1: "generate_career_paths flush (Inl e) latency user_id skills_assessment_id career_interests
        time_horizon_years s =
        (Inl (ExternalServiceError (''AI Career Path service failed: '' @ str_exn e)
                [Service ''career_paths'']),
         s\<lparr>session := d2, committed := d2, commit_log := commit_log s @ [d1, d2],
           next_uuid := next_uuid s + 1\<rparr>)"
    unfolding unf by (simp add: d2_def)
  have 2: "career_paths d1 = career_paths (session s)" by (simp add: d1_def)
  have 3: "career_paths d2 = career_paths (session s)" by (simp add: d2_def update_log_def d1_def)
  have 4: "\<exists>l \<in> set (ai_calls_log d2).
         log_id l = next_uuid s \<and> log_user_id l = user_id \<and> log_status l = ''error'' \<and>
         error_message l = Some (str_exn e)"
    by (simp add: d2_def update_log_def d1_def pending_log_def)
  from 1 2 3 4 show ?thesis by blast
qed

text \<open>
  Claim C1. Accepting a path that exists, belongs to the requesting subject and is
  "proposed" returns it as "accepted" and commits once a store in which that path is
  "accepted" and every other path of the subject that was "proposed" or "accepted" is
  "discarded", all other rows being as they were. In every state the two operations that
  write career paths can reach, whatever the AI client and the database answer, the
  committed store and every store that was ever committed have no subject with two
  "accepted" paths.
\<close>

theorem accept_path_single_accepted:
  "(career_path_get_by_id path_id (session s) = Some path \<and> cp_user_id path = user_id \<and>
    cp_status path = ''proposed'' \<longrightarrow>
      (\<exists>d'. accept_path path_id user_id s =
               (Inr (path\<lparr>cp_status := ''accepted''\<rparr>),
                s\<lparr>session := d', committed := d', commit_log := commit_log s @ [d']\<rparr>) \<and>
            d' = (session s)\<lparr>career_paths :=
                    map (accept_row path_id user_id) (career_paths (session s))\<rparr>)) \<and>
   (reachable s \<longrightarrow>
      one_accepted_per_user (committed s) \<and> list_all one_accepted_per_user (commit_log s))"
proof (intro conjI impI)
  assume "career_path_get_by_id path_id (session s) = Some path \<and> cp_user_id path = user_id \<and>
    cp_status path = ''proposed''"
  then have "accept_path path_id user_id s =
           (Inr (path\<lparr>cp_status := ''accepted''\<rparr>),
            commit (s\<lparr>session := (session s)\<lparr>career_paths :=
                      map (accept_row path_id user_id) (career_paths (session s))\<rparr>\<rparr>))"
    by (intro accept_path_eq) simp_all
  then show "\<exists>d'. accept_path path_id user_id s =
               (Inr (path\<lparr>cp_status := ''accepted''\<rparr>),
                s\<lparr>session := d', committed := d', commit_log := commit_log s @ [d']\<rparr>) \<and>
            d' = (session s)\<lparr>career_paths :=
                    map (accept_row path_id user_id) (career_paths (session s))\<rparr>"
    by (simp add: commit_def)
next
  assume "reachable s"
  then have "consistent s" by (rule reachable_consistent)
  then show "one_accepted_per_user (committed s)" "list_all one_accepted_per_user (commit_log s)"
    by (simp_all add: consistent_def)
qed

text \<open>
  The example: two paths are generated for user 1, who accepts the second one. The first
  one is discarded by the same commit, the third of the run, and the state reached has one
  accepted path.
\<close>

theorem accept_path_single_accepted_witness:
  "\<exists>p1 p2 s1 s2.
     generate_career_paths integrity_check (Inr example_response) 7 1 None None 3 example_system
       = (Inr [p1, p2], s1) \<and>
     accept_path 15 1 (rollback s1) = (Inr (p2\<lparr>cp_status := ''accepted''\<rparr>), s2) \<and>
     map cp_status (career_paths (committed s2)) = [''discarded'', ''accepted''] \<and>
     length (commit_log s2) = 3 \<and>
     reachable (rollback s2) \<and>
     one_accepted_per_user (committed (rollback s2)) \<and>
     list_all one_accepted_per_user (commit_log (rollback s2))"
proof -
  from example_run obtain p1 p2 s1 where
    run: "generate_career_paths integrity_check (Inr example_response) 7 1 None None 3 example_system
           = (Inr [p1, p2], s1)"
    and p: "cp_id p1 = 11" "cp_id p2 = 15" "cp_user_id p1 = 1" "cp_user_id p2 = 1"
      "cp_status p1 = ''proposed''" "cp_status p2 = ''proposed''"
    and s1: "session s1 = committed s1" "career_paths (committed s1) = [p1, p2]"
      "length (commit_log s1) = 2"
    by blast
  have r0: "reachable example_system"
    by (rule reachable.initial) (simp_all add: example_system_def example_store_def empty_db_def)
  have r1: "reachable (rollback s1)" using r0 run by (rule reachable.generated)
  have look: "career_path_get_by_id 15 (session (rollback s1)) = Some p2 \<and> cp_user_id p2 = 1 \<and>
      cp_status p2 = ''proposed''"
    by (simp add: career_path_get_by_id_def rollback_def s1 p)
  define d' where "d' = (session (rollback s1))\<lparr>career_paths :=
      map (accept_row 15 1) (career_paths (session (rollback s1)))\<rparr>"
  define s2 where "s2 = (rollback s1)\<lparr>session := d', committed := d',
      commit_log := commit_log (rollback s1) @ [d']\<rparr>"
  from accept_path_single_accepted [of 15 "rollback s1" p2 1] look
  have acc: "accept_path 15 1 (rollback s1) = (Inr (p2\<lparr>cp_status := ''accepted''\<rparr>), s2)"
    by (simp add: s2_def d'_def)
  have r2: "reachable (rollback s2)" using r1 acc by (rule reachable.accepted)
  from accept_path_single_accepted [of 15 "rollback s2" p2 1] r2
  have ok: "one_accepted_per_user (committed (rollback s2))"
    "list_all one_accepted_per_user (commit_log (rollback s2))"
    by simp_all
  have st: "map cp_status (career_paths (committed s2)) = [''discarded'', ''accepted'']"
    by (simp add: s2_def d'_def rollback_def s1 accept_row_def p)
  have len: "length (commit_log s2) = 3" by (simp add: s2_def rollback_def s1)
  show ?thesis
    by (rule exI [of _ p1], rule exI [of _ p2], rule exI [of _ s1], rule exI [of _ s2])
       (intro conjI run acc st len r2 ok)
qed

text \<open>
  Claim C5. For a user and an assessment that exist: when the response has two paths of
  two steps each and the ingestion returns, it has committed twice, first the pending audit
  row alone and then, in one commit, two \<^verbatim>\<open>CareerPath\<close> rows of the user with status
  "proposed", four \<^verbatim>\<open>CareerPathStep\<close> rows, two under each path, that carry the
  \<^verbatim>\<open>step_number\<close> values of the response in order, and one \<^verbatim>\<open>DevelopmentAction\<close> per
  listed action title, each under one of the new steps; with the constraints of the schema
  checked at every flush, parent and step number are unique among the committed steps. The
  ingestion does return when no flush raises. When the external call raises, the service
  raises \<^verbatim>\<open>ServiceError\<close>, no \<^verbatim>\<open>CareerPath\<close> row is added in either of the two commits,
  and the audit row of the call is committed with status "error" and the message of the
  exception.
\<close>

theorem career_path_ingestion:
  assumes found: "user_get_by_id user_id (session s) = Some user"
    and assessed: "(case skills_assessment_id of
                      Some aid \<Rightarrow> assessment_get_by_id aid (session s)
                    | None \<Rightarrow> assessment_get_latest_by_user_id user_id (session s)) = Some assessment"
  shows
    "(ai_call = Inr ai_response \<and> generated_paths ai_response = [path_a, path_b] \<and>
      length (pj_steps path_a) = 2 \<and> length (pj_steps path_b) = 2 \<and>
      generate_career_paths flush ai_call latency user_id skills_assessment_id career_interests
        time_horizon_years s = (Inr created, s') \<longrightarrow>
      (\<exists>p1 p2 steps actions d1.
         created = [p1, p2] \<and> cp_id p1 \<noteq> cp_id p2 \<and>
         cp_status p1 = ''proposed'' \<and> cp_status p2 = ''proposed'' \<and>
         cp_user_id p1 = user_id \<and> cp_user_id p2 = user_id \<and>
         commit_log s' = commit_log s @ [d1, committed s'] \<and>
         career_paths d1 = career_paths (session s) \<and>
         career_path_steps d1 = career_path_steps (session s) \<and>
         development_actions d1 = development_actions (session s) \<and>
         career_paths (committed s') = career_paths (session s) @ [p1, p2] \<and>
         career_path_steps (committed s') = career_path_steps (session s) @ steps \<and>
         development_actions (committed s') = development_actions (session s) @ actions \<and>
         map career_path_id steps = [cp_id p1, cp_id p1, cp_id p2, cp_id p2] \<and>
         map step_number steps = map sj_step_number (pj_steps path_a @ pj_steps path_b) \<and>
         map title actions = path_titles path_a @ path_titles path_b \<and>
         career_path_step_id ` set actions \<subseteq> cps_id ` set steps \<and>
         (flush = integrity_check \<longrightarrow>
            distinct (map (\<lambda>st. (career_path_id st, step_number st))
                        (career_path_steps (committed s')))))) \<and>
     (ai_call = Inr ai_response \<and> (\<forall>d. flush d = None) \<longrightarrow>
        (\<exists>rows t. generate_career_paths flush ai_call latency user_id skills_assessment_id
                     career_interests time_horizon_years s = (Inr rows, t))) \<and>
     (ai_call = Inl e \<longrightarrow>
        (\<exists>d1 d2.
           generate_career_paths flush ai_call latency user_id skills_assessment_id
             career_interests time_horizon_years s =
             (Inl (ExternalServiceError (''AI Career Path service failed: '' @ str_exn e)
                     [Service ''career_paths'']),
              s\<lparr>session := d2, committed := d2, commit_log := commit_log s @ [d1, d2],
                next_uuid := next_uuid s + 1\<rparr>) \<and>
           career_paths d1 = career_paths (session s) \<and>
           career_paths d2 = career_paths (session s) \<and>
           (\<exists>l \<in> set (ai_calls_log d2).
              log_id l = next_uuid s \<and> log_user_id l = user_id \<and> log_status l = ''error'' \<and>
              error_message l = Some (str_exn e))))"
proof (intro conjI)
  show "ai_call = Inr ai_response \<and> (\<forall>d. flush d = None) \<longrightarrow>
        (\<exists>rows t. generate_career_paths flush ai_call latency user_id skills_assessment_id
                     career_interests time_horizon_years s = (Inr rows, t))"
    using generate_career_paths_accepted [OF found assessed, of flush] by simp
  show "ai_call = Inl e \<longrightarrow>
        (\<exists>d1 d2.
           generate_career_paths flush ai_call latency user_id skills_assessment_id
             career_interests time_horizon_years s =
             (Inl (ExternalServiceError (''AI Career Path service failed: '' @ str_exn e)
                     [Service ''career_paths'']),
              s\<lparr>session := d2, committed := d2, commit_log := commit_log s @ [d1, d2],
                next_uuid := next_uuid s + 1\<rparr>) \<and>
           career_paths d1 = career_paths (session s) \<and>
           career_paths d2 = career_paths (session s) \<and>
           (\<exists>l \<in> set (ai_calls_log d2).
              log_id l = next_uuid s \<and> log_user_id l = user_id \<and> log_status l = ''error'' \<and>
              error_message l = Some (str_exn e)))"
    using generate_career_paths_failure [OF found assessed, of flush e] by simp
qed (rule generate_career_paths_two_paths [OF found assessed])

text \<open>
  The example: the two paths of the example response are persisted with their four steps
  and three actions; the same request returns with a database that accepts everything; and
  a call that times out leaves no path and an audit row with status "error".
\<close>

theorem career_path_ingestion_witness:
  "(\<exists>p1 p2 s' steps.
      generate_career_paths integrity_check (Inr example_response) 7 1 None None 3 example_system
        = (Inr [p1, p2], s') \<and>
      cp_status p1 = ''proposed'' \<and> cp_status p2 = ''proposed'' \<and>
      career_paths (committed s') = [p1, p2] \<and>
      career_path_steps (committed s') = steps \<and>
      map career_path_id steps = [cp_id p1, cp_id p1, cp_id p2, cp_id p2] \<and>
      map step_number steps = [Some 1, Some 2, Some 3, Some 4] \<and>
      map title (development_actions (committed s')) =
        [''Leadership Course'', ''Mentoring'', ''Project X''] \<and>
      distinct (map (\<lambda>st. (career_path_id st, step_number st)) steps)) \<and>
   (\<exists>rows t.
      generate_career_paths (\<lambda>d. None) (Inr example_response) 7 1 None None 3 example_system
        = (Inr rows, t)) \<and>
   (\<exists>t.
      generate_career_paths integrity_check (Inl (Exception ''timeout'')) 7 1 None None 3
        example_system
        = (Inl (ExternalServiceError ''AI Career Path service failed: timeout''
                  [Service ''career_paths'']), t) \<and>
      career_paths (committed t) = [] \<and>
      list_ex (\<lambda>l. log_status l = ''error'') (ai_calls_log (committed t)))"
proof (intro conjI)
  from example_run obtain p1 p2 s' where
    run: "generate_career_paths integrity_check (Inr example_response) 7 1 None None 3 example_system
           = (Inr [p1, p2], s')"
    by blast
  have shape: "generated_paths example_response =
      [hd (generated_paths example_response), hd (tl (generated_paths example_response))]"
    "length (pj_steps (hd (generated_paths example_response))) = 2"
    "length (pj_steps (hd (tl (generated_paths example_response)))) = 2"
    by (simp_all add: example_response_def)
  have empty: "career_paths (session example_system) = []"
    "career_path_steps (session example_system) = []"
    "development_actions (session example_system) = []"
    by (simp_all add: example_system_def example_store_def empty_db_def)
  have nums: "map sj_step_number (pj_steps (hd (generated_paths example_response))) @
              map sj_step_number (pj_steps (hd (tl (generated_paths example_response)))) =
              [Some 1, Some 2, Some 3, Some 4]"
    by (simp add: example_response_def example_step_def)
  have titles: "path_titles (hd (generated_paths example_response)) @
                path_titles (hd (tl (generated_paths example_response))) =
                [''Leadership Course'', ''Mentoring'', ''Project X'']"
    by (simp add: example_response_def example_step_def path_titles_def step_titles_def)
  from career_path_ingestion [OF example_lookups, of "Inr example_response" example_response
      "hd (generated_paths example_response)" "hd (tl (generated_paths example_response))"
      integrity_check 7 None 3 "[p1, p2]" s']
    run shape
  obtain steps where
    "cp_status p1 = ''proposed''" "cp_status p2 = ''proposed''"
    "career_paths (committed s') = career_paths (session example_system) @ [p1, p2]"
    "career_path_steps (committed s') = career_path_steps (session example_system) @ steps"
    "map career_path_id steps = [cp_id p1, cp_id p1, cp_id p2, cp_id p2]"
    "map step_number steps = map sj_step_number (pj_steps (hd (generated_paths example_response)) @
                pj_steps (hd (tl (generated_paths example_response))))"
    "\<exists>actions. development_actions (committed s') = development_actions (session example_system) @ actions \<and>
       map title actions = path_titles (hd (generated_paths example_response)) @
                path_titles (hd (tl (generated_paths example_response)))"
    "distinct (map (\<lambda>st. (career_path_id st, step_number st)) (career_path_steps (committed s')))"
    by auto
  with run show "\<exists>p1 p2 s' steps.
      generate_career_paths integrity_check (Inr example_response) 7 1 None None 3 example_system
        = (Inr [p1, p2], s') \<and>
      cp_status p1 = ''proposed'' \<and> cp_status p2 = ''proposed'' \<and>
      career_paths (committed s') = [p1, p2] \<and>
      career_path_steps (committed s') = steps \<and>
      map career_path_id steps = [cp_id p1, cp_id p1, cp_id p2, cp_id p2] \<and>
      map step_number steps = [Some 1, Some 2, Some 3, Some 4] \<and>
      map title (development_actions (committed s')) =
        [''Leadership Course'', ''Mentoring'', ''Project X''] \<and>
      distinct (map (\<lambda>st. (career_path_id st, step_number st)) steps)"
    by (auto simp: empty nums titles)
next
  from career_path_ingestion [OF example_lookups, where ai_call = "Inr example_response"
      and ai_response = example_response and flush = "\<lambda>d. None" and latency = 7
      and career_interests = None and time_horizon_years = 3]
  show "\<exists>rows t.
      generate_career_paths (\<lambda>d. None) (Inr example_response) 7 1 None None 3 example_system
        = (Inr rows, t)"
    by simp
next
  from career_path_ingestion [OF example_lookups, where ai_call = "Inl (Exception ''timeout'')"
      and e = "Exception ''timeout''" and flush = integrity_check and latency = 7
      and career_interests = None and time_horizon_years = 3]
  obtain d1 d2 where
    "generate_career_paths integrity_check (Inl (Exception ''timeout'')) 7 1 None None 3
        example_system =
       (Inl (ExternalServiceError ''AI Career Path service failed: timeout''
                     [Service ''career_paths'']),
        example_system\<lparr>session := d2, committed := d2,
           commit_log := commit_log example_system @ [d1, d2],
           next_uuid := next_uuid example_system + 1\<rparr>)"
    "career_paths d2 = career_paths (session example_system)"
    "\<exists>l \<in> set (ai_calls_log d2). log_status l = ''error''"
    by auto
  then show "\<exists>t.
      generate_career_paths integrity_check (Inl (Exception ''timeout'')) 7 1 None None 3
        example_system
        = (Inl (ExternalServiceError ''AI Career Path service failed: timeout''
                  [Service ''career_paths'']), t) \<and>
      career_paths (committed t) = [] \<and>
      list_ex (\<lambda>l. log_status l = ''error'') (ai_calls_log (committed t))"
    by (simp add: list_ex_iff example_system_def example_store_def empty_db_def)
qed

text \<open>
  The step rows are not numbered by the service: the example response has two paths of two
  steps each, the second path continuing the numbering of the first, which no constraint
  forbids, and the two steps persisted under the second path are numbered 3 and 4.
\<close>

theorem ingestion_step_numbers_come_from_response:
  "\<exists>p1 p2 s'.
     generate_career_paths integrity_check (Inr example_response) 7 1 None None 3 example_system
       = (Inr [p1, p2], s') \<and>
     map (\<lambda>p. length (pj_steps p)) (generated_paths example_response) = [2, 2] \<and>
     map career_path_id (career_path_steps (committed s')) = [cp_id p1, cp_id p1, cp_id p2, cp_id p2] \<and>
     map step_number (career_path_steps (committed s')) = [Some 1, Some 2, Some 3, Some 4]"
proof -
  from example_run obtain p1 p2 s' where
    "generate_career_paths integrity_check (Inr example_response) 7 1 None None 3 example_system
           = (Inr [p1, p2], s')"
    "cp_id p1 = 11" "cp_id p2 = 15"
    "map career_path_id (career_path_steps (committed s')) = [11, 11, 15, 15]"
    "map step_number (career_path_steps (committed s')) = [Some 1, Some 2, Some 3, Some 4]"
    by (elim exE conjE) (rule that, assumption+)
  moreover have "map (\<lambda>p. length (pj_steps p)) (generated_paths example_response) = [2, 2]"
    by (simp add: example_response_def)
  ultimately show ?thesis by auto
qed

end
